theory Spec2Isabelle
  imports Complex_Main "HOL-Library.Log_Nat"
begin

section \<open>JSON values as the JavaScript code sees them\<close>

text \<open>
  The worklogs, the issue records and the error bodies are parsed JSON which the code never
  types: it reads properties with \<^verbatim>\<open>.\<close> and \<^verbatim>\<open>?.\<close> and decides with \<^verbatim>\<open>||\<close> and
  \<^verbatim>\<open>&&\<close>. They are modelled as the values \<^verbatim>\<open>JSON.parse\<close> can build, plus \<^verbatim>\<open>undefined\<close>
  for what a property read of an absent property gives. A number carries the exact
  rational value of the IEEE double (\<open>-0\<close> is \<open>0\<close>: no operation of this program
  tells them apart in its result). An object is its list of own properties, read by the first
  entry of a key. A parsed JSON tree shares no sub-object, so mutation in place is the
  update of a value.
\<close>

datatype jsval =
    JUndefined
  | JNull
  | JBool bool
  | JNum rat
  | JStr string
  | JArr "jsval list"
  | JObj "(string \<times> jsval) list"

text \<open>The numbers arithmetic can produce: the finite doubles and the three special values.\<close>

datatype jsnum = Finite rat | NaN | PosInfinity | NegInfinity

text \<open>
  What can be thrown: a \<^verbatim>\<open>TypeError\<close> of the engine (the string names the failing
  operation; the engine's own wording of \<^verbatim>\<open>error.message\<close> is not modelled), and the error
  of the HTTP client, with its message and, when the server answered, the status and the
  body of the answer (\<^verbatim>\<open>error.response.status\<close>, \<^verbatim>\<open>error.response.data\<close>).
\<close>

datatype js_error =
    TypeError string
  | RequestError string "(nat \<times> jsval) option"

text \<open>
  Three conversions of the ECMAScript runtime between numbers and strings are parameters
  of the model: \<^verbatim>\<open>Number::toString\<close> outside the integers below \<open>2^53\<close>,
  \<^verbatim>\<open>StringToNumber\<close> and \<^verbatim>\<open>parseFloat\<close>. So is the time zone of the process, as the
  conversion of a local time to UTC, both in milliseconds. Every theorem holds whatever
  they are.
\<close>

record runtime =
  number_to_string_other :: "rat \<Rightarrow> string"
  string_to_number :: "string \<Rightarrow> jsnum"
  parse_float :: "string \<Rightarrow> jsnum"
  local_to_utc :: "int \<Rightarrow> int"

subsection \<open>Truthiness and property reads\<close>

fun truthy :: "jsval \<Rightarrow> bool" where
  "truthy JUndefined = False"
| "truthy JNull = False"
| "truthy (JBool b) = b"
| "truthy (JNum q) = (q \<noteq> 0)"
| "truthy (JStr s) = (s \<noteq> [])"
| "truthy (JArr xs) = True"
| "truthy (JObj ps) = True"

definition js_or :: "jsval \<Rightarrow> jsval \<Rightarrow> jsval" where
  "js_or a b = (if truthy a then a else b)"

definition js_and :: "jsval \<Rightarrow> jsval \<Rightarrow> jsval" where
  "js_and a b = (if truthy a then b else a)"

fun nullish :: "jsval \<Rightarrow> bool" where
  "nullish JUndefined = True"
| "nullish JNull = True"
| "nullish v = False"

text \<open>
  \<open>get_prop v k\<close> is \<^verbatim>\<open>v.k\<close> for a base that is neither \<^verbatim>\<open>null\<close> nor
  \<^verbatim>\<open>undefined\<close> and a name \<open>k\<close> written in the source; none of these names is a
  member of a built-in prototype, so only an own property of an object answers.
  \<open>get_member\<close> is \<^verbatim>\<open>v.k\<close> and \<open>opt_member\<close> is \<^verbatim>\<open>v?.k\<close> for any base.
\<close>

fun get_prop :: "jsval \<Rightarrow> string \<Rightarrow> jsval" where
  "get_prop (JObj ps) k = (case map_of ps k of Some v \<Rightarrow> v | None \<Rightarrow> JUndefined)"
| "get_prop v k = JUndefined"

definition get_member :: "jsval \<Rightarrow> string \<Rightarrow> js_error + jsval" where
  "get_member v k =
     (if nullish v then Inl (TypeError (''Cannot read properties of null or undefined: '' @ k))
      else Inr (get_prop v k))"

definition opt_member :: "jsval \<Rightarrow> string \<Rightarrow> jsval" where
  "opt_member v k = (if nullish v then JUndefined else get_prop v k)"

text \<open>\<^verbatim>\<open>o.k = v\<close> on an object: the property keeps its place, a new one goes last.\<close>

fun set_prop :: "(string \<times> jsval) list \<Rightarrow> string \<Rightarrow> jsval \<Rightarrow> (string \<times> jsval) list" where
  "set_prop [] k v = [(k, v)]"
| "set_prop ((k', v') # ps) k v = (if k' = k then (k, v) # ps else (k', v') # set_prop ps k v)"

subsection \<open>Numbers: doubles, division by 3600, \<^verbatim>\<open>toFixed(2)\<close>\<close>

text \<open>
  \<open>ilog2 q\<close> is the binary exponent of a positive rational; \<open>round_double\<close> rounds a
  rational to the nearest double, ties to the even significand, with the fixed quantum
  \<open>2^-1074\<close> below the normal range; \<open>to_double\<close> adds the overflow to the infinities.
\<close>

definition ilog2 :: "rat \<Rightarrow> int" where
  "ilog2 q = (let (a, b) = quotient_of q; d = bitlen a - bitlen b
              in if power_int 2 d \<le> q then d else d - 1)"

definition round_half_even :: "rat \<Rightarrow> int" where
  "round_half_even x =
     (let f = \<lfloor>x\<rfloor>; r = x - of_int f
      in if r < 1 / 2 then f
         else if 1 / 2 < r then f + 1
         else if even f then f else f + 1)"

definition round_double :: "rat \<Rightarrow> rat" where
  "round_double q =
     (if q = 0 then 0
      else let e = max (ilog2 \<bar>q\<bar>) (- 1022); u = power_int 2 (e - 52)
           in of_int (round_half_even (q / u)) * u)"

definition to_double :: "rat \<Rightarrow> jsnum" where
  "to_double q =
     (let r = round_double q
      in if 2 ^ 1024 \<le> r then PosInfinity
         else if r \<le> - (2 ^ 1024) then NegInfinity
         else Finite r)"

text \<open>\<^verbatim>\<open>x / 3600\<close> on a number.\<close>

fun divide_3600 :: "jsnum \<Rightarrow> jsnum" where
  "divide_3600 (Finite q) = to_double (q / 3600)"
| "divide_3600 NaN = NaN"
| "divide_3600 PosInfinity = PosInfinity"
| "divide_3600 NegInfinity = NegInfinity"

definition digit_char :: "nat \<Rightarrow> char" where
  "digit_char d = ''0123456789'' ! d"

fun digits :: "nat \<Rightarrow> string" where
  "digits n = (if n < 10 then [digit_char n] else digits (n div 10) @ [digit_char (n mod 10)])"

declare digits.simps [simp del]

text \<open>
  \<^verbatim>\<open>Number::toString\<close>: an integer below \<open>2^53\<close> in absolute value prints as its
  decimal digits; any other number is left to the runtime.
\<close>

definition number_to_string :: "runtime \<Rightarrow> rat \<Rightarrow> string" where
  "number_to_string rt q =
     (if q = of_int \<lfloor>q\<rfloor> \<and> \<bar>q\<bar> < 2 ^ 53
      then (if q < 0 then ''-'' else []) @ digits (nat \<bar>\<lfloor>q\<rfloor>\<bar>)
      else number_to_string_other rt q)"

fun jsnum_to_string :: "runtime \<Rightarrow> jsnum \<Rightarrow> string" where
  "jsnum_to_string rt (Finite q) = number_to_string rt q"
| "jsnum_to_string rt NaN = ''NaN''"
| "jsnum_to_string rt PosInfinity = ''Infinity''"
| "jsnum_to_string rt NegInfinity = ''-Infinity''"

text \<open>
  \<^verbatim>\<open>Number.prototype.toFixed\<close> at two fraction digits, step by step as ECMAScript gives
  it: a number that is not finite prints by \<^verbatim>\<open>toString\<close>; the sign is split off; from
  \<open>10^21\<close> on the number prints by \<^verbatim>\<open>toString\<close>; otherwise \<open>n\<close> is the integer nearest
  to a hundred times the value (the larger one of two), its digits are padded with zeros
  to three, and the point goes before the last two.
\<close>

definition toFixed_2 :: "runtime \<Rightarrow> jsnum \<Rightarrow> string" where
  "toFixed_2 rt x =
     (case x of
        Finite q \<Rightarrow>
          (let s = (if q < 0 then ''-'' else []); a = \<bar>q\<bar>
           in if 10 ^ 21 \<le> a then s @ number_to_string rt a
              else let n = nat \<lfloor>a * 100 + 1 / 2\<rfloor>;
                       m = digits n;
                       m' = (if length m \<le> 2 then replicate (3 - length m) (CHR ''0'') @ m else m);
                       k = length m'
                   in s @ take (k - 2) m' @ ''.'' @ drop (k - 2) m')
      | _ \<Rightarrow> jsnum_to_string rt x)"

subsection \<open>Conversions of values\<close>

text \<open>
  The first error of a list of results, or all the values: what a loop that throws at its
  first failing element leaves.
\<close>

fun collect :: "('e + 'a) list \<Rightarrow> 'e + 'a list" where
  "collect [] = Inr []"
| "collect (Inl e # xs) = Inl e"
| "collect (Inr v # xs) = (case collect xs of Inl e \<Rightarrow> Inl e | Inr vs \<Rightarrow> Inr (v # vs))"

fun join :: "string \<Rightarrow> string list \<Rightarrow> string" where
  "join sep [] = []"
| "join sep [s] = s"
| "join sep (s # t # ts) = s @ sep @ join sep (t # ts)"

text \<open>
  \<^verbatim>\<open>ToString\<close>. An array prints by \<^verbatim>\<open>Array.prototype.join\<close>, where \<^verbatim>\<open>null\<close> and
  \<^verbatim>\<open>undefined\<close> elements print empty. A parsed object inherits \<^verbatim>\<open>toString\<close> and
  \<^verbatim>\<open>valueOf\<close> from \<^verbatim>\<open>Object.prototype\<close> unless the JSON text gave it an own property
  \<^verbatim>\<open>toString\<close>, which is never callable: then the conversion finds no primitive and
  throws. (\<^verbatim>\<open>ToNumber\<close> asks \<^verbatim>\<open>valueOf\<close> first, which returns the object itself when
  inherited and is skipped when own, so both conversions go through the same string.)
\<close>

fun to_string :: "runtime \<Rightarrow> jsval \<Rightarrow> js_error + string" where
  "to_string rt JUndefined = Inr ''undefined''"
| "to_string rt JNull = Inr ''null''"
| "to_string rt (JBool b) = Inr (if b then ''true'' else ''false'')"
| "to_string rt (JNum q) = Inr (number_to_string rt q)"
| "to_string rt (JStr s) = Inr s"
| "to_string rt (JArr xs) =
     (case collect (map (\<lambda>x. if nullish x then Inr [] else to_string rt x) xs) of
        Inl e \<Rightarrow> Inl e
      | Inr ss \<Rightarrow> Inr (join '','' ss))"
| "to_string rt (JObj ps) =
     (case map_of ps ''toString'' of
        Some v \<Rightarrow> Inl (TypeError ''Cannot convert object to primitive value'')
      | None \<Rightarrow> Inr ''[object Object]'')"

fun to_number :: "runtime \<Rightarrow> jsval \<Rightarrow> js_error + jsnum" where
  "to_number rt JUndefined = Inr NaN"
| "to_number rt JNull = Inr (Finite 0)"
| "to_number rt (JBool b) = Inr (Finite (if b then 1 else 0))"
| "to_number rt (JNum q) = Inr (Finite q)"
| "to_number rt (JStr s) = Inr (string_to_number rt s)"
| "to_number rt v =
     (case to_string rt v of Inl e \<Rightarrow> Inl e | Inr s \<Rightarrow> Inr (string_to_number rt s))"

section \<open>The normalizer: \<^verbatim>\<open>TempoService.transformWorklogs\<close>\<close>

record author_record =
  accountId :: jsval
  displayName :: jsval

record worklog_record =
  id' :: jsval
  issueKey :: jsval
  issueId :: jsval
  issueSummary :: jsval
  date :: jsval
  startTime :: jsval
  timeSpentSeconds :: jsval
  timeSpentHours :: string
  description :: jsval
  author :: author_record
  createdAt :: jsval
  updatedAt :: jsval

text \<open>
  The arrow function of \<^verbatim>\<open>worklogs.map\<close>. Reading a property of a \<^verbatim>\<open>null\<close> element
  throws; the division converts its operand to a number, which can throw too.
\<close>

definition transformWorklog :: "runtime \<Rightarrow> jsval \<Rightarrow> js_error + worklog_record" where
  "transformWorklog rt worklog =
     (if nullish worklog
      then Inl (TypeError ''Cannot read properties of null or undefined: tempoWorklogId'')
      else case to_number rt (get_prop worklog ''timeSpentSeconds'') of
        Inl e \<Rightarrow> Inl e
      | Inr seconds \<Rightarrow> Inr
         \<lparr> id' = get_prop worklog ''tempoWorklogId'',
           issueKey = js_or (opt_member (get_prop worklog ''issue'') ''key'') (JStr ''N/A''),
           issueId = js_or (opt_member (get_prop worklog ''issue'') ''id'') JNull,
           issueSummary = js_or (opt_member (get_prop worklog ''issue'') ''summary'') JNull,
           date = get_prop worklog ''startDate'',
           startTime = js_or (get_prop worklog ''startTime'') JNull,
           timeSpentSeconds = get_prop worklog ''timeSpentSeconds'',
           timeSpentHours = toFixed_2 rt (divide_3600 seconds),
           description = js_or (get_prop worklog ''description'') (JStr []),
           author =
             \<lparr> accountId = js_or (opt_member (get_prop worklog ''author'') ''accountId'') JNull,
               displayName =
                 js_or (opt_member (get_prop worklog ''author'') ''displayName'') (JStr ''Unknown'') \<rparr>,
           createdAt = get_prop worklog ''createdAt'',
           updatedAt = get_prop worklog ''updatedAt'' \<rparr>)"

definition transformWorklogs :: "runtime \<Rightarrow> jsval list \<Rightarrow> js_error + worklog_record list" where
  "transformWorklogs rt worklogs = collect (map (transformWorklog rt) worklogs)"

text \<open>
  The data model of the specification: a raw worklog is a record (an object) whose time
  spent, when it is there, is a primitive value and not a nested object or array.
\<close>

fun primitive :: "jsval \<Rightarrow> bool" where
  "primitive (JArr xs) = False"
| "primitive (JObj ps) = False"
| "primitive v = True"

fun is_object :: "jsval \<Rightarrow> bool" where
  "is_object (JObj ps) = True"
| "is_object v = False"

definition raw_worklog :: "jsval \<Rightarrow> bool" where
  "raw_worklog w = (is_object w \<and> primitive (get_prop w ''timeSpentSeconds''))"

section \<open>The network and what the program does to it\<close>

text \<open>
  The two services are functions of the request: what the HTTP client returns
  (\<^verbatim>\<open>response.data\<close>) or throws. The program's effects are a trace, in the order they
  happen: the calls, and the lines it logs.
\<close>

record services =
  tempo_get :: "string \<Rightarrow> string \<Rightarrow> nat \<Rightarrow> nat \<Rightarrow> js_error + jsval"
  jira_post :: "string \<Rightarrow> nat \<Rightarrow> js_error + jsval"

datatype event =
    TempoGet string string nat nat
  | JiraPost string nat
  | ConsoleError string string
  | ContextLog string
  | ContextLogError string string

fun error_message :: "js_error \<Rightarrow> string" where
  "error_message (TypeError m) = m"
| "error_message (RequestError m r) = m"

fun upstream_call :: "event \<Rightarrow> bool" where
  "upstream_call (TempoGet s e offset n) = True"
| "upstream_call (JiraPost jql n) = True"
| "upstream_call ev = False"

section \<open>The fetcher: the page loop of \<^verbatim>\<open>TempoService.getWorklogs\<close>\<close>

definition limit :: nat where
  "limit = 50"

fun greater_than_zero :: "jsnum \<Rightarrow> bool" where
  "greater_than_zero (Finite q) = (0 < q)"
| "greater_than_zero PosInfinity = True"
| "greater_than_zero n = False"

text \<open>Iterating a string gives its characters, each a string.\<close>

definition characters :: "string \<Rightarrow> jsval list" where
  "characters s = map (\<lambda>c. JStr [c]) s"

text \<open>
  \<^verbatim>\<open>if (results && results.length > 0) allWorklogs.push(...results)\<close>: what one page
  adds. An array adds its elements. The other values a response can hold are followed as
  JavaScript does: a number or \<^verbatim>\<open>true\<close> has no length, a string spreads into its
  characters, and an object with a positive \<^verbatim>\<open>length\<close> property passes the test and
  cannot be spread.
\<close>

fun pushed :: "runtime \<Rightarrow> jsval \<Rightarrow> js_error + jsval list" where
  "pushed rt (JArr xs) = Inr xs"
| "pushed rt (JStr s) = Inr (characters s)"
| "pushed rt (JObj ps) =
     (case to_number rt (get_prop (JObj ps) ''length'') of
        Inl e \<Rightarrow> Inl e
      | Inr n \<Rightarrow> if greater_than_zero n then Inl (TypeError ''results is not iterable'') else Inr [])"
| "pushed rt v = Inr []"

text \<open>
  One pass of the loop body on the answer of the call: the records it pushes and the new
  value of \<^verbatim>\<open>hasMore\<close>, which is \<^verbatim>\<open>metadata && metadata.next\<close>.
\<close>

definition read_page :: "runtime \<Rightarrow> js_error + jsval \<Rightarrow> js_error + jsval list \<times> jsval" where
  "read_page rt response =
     (case response of
        Inl e \<Rightarrow> Inl e
      | Inr data \<Rightarrow>
          if nullish data
          then Inl (TypeError ''Cannot destructure property results of null or undefined'')
          else (case pushed rt (get_prop data ''results'') of
                  Inl e \<Rightarrow> Inl e
                | Inr rs \<Rightarrow>
                    Inr (rs, js_and (get_prop data ''metadata'')
                                    (get_prop (get_prop data ''metadata'') ''next''))))"

text \<open>
  The \<^verbatim>\<open>while (hasMore)\<close> loop, entered with \<^verbatim>\<open>hasMore = true\<close>. Nothing bounds it: against
  a service that reports a next page forever it never returns, which is the value \<open>None\<close>.
\<close>

partial_function (option) fetch_pages ::
  "runtime \<Rightarrow> services \<Rightarrow> string \<Rightarrow> string \<Rightarrow> nat \<Rightarrow> jsval list \<Rightarrow> event list
     \<Rightarrow> ((js_error + jsval list) \<times> event list) option" where
  "fetch_pages rt net startDate endDate offset allWorklogs trace =
     (case read_page rt (tempo_get net startDate endDate offset limit) of
        Inl e \<Rightarrow> Some (Inl e, trace @ [TempoGet startDate endDate offset limit])
      | Inr (rs, hasMore) \<Rightarrow>
          if truthy hasMore
          then fetch_pages rt net startDate endDate (offset + limit) (allWorklogs @ rs)
                 (trace @ [TempoGet startDate endDate offset limit])
          else Some (Inr (allWorklogs @ rs), trace @ [TempoGet startDate endDate offset limit]))"

section \<open>The enricher: \<^verbatim>\<open>TempoService.enrichWithIssueKeys\<close>\<close>

text \<open>
  \<^verbatim>\<open>[...new Set(worklogs.map(w => w.issue?.id).filter(Boolean))]\<close>. A \<^verbatim>\<open>Set\<close> keeps the
  first of equal primitives; two parsed objects or arrays are never the same value.
\<close>

definition issue_id :: "jsval \<Rightarrow> js_error + jsval" where
  "issue_id w =
     (case get_member w ''issue'' of Inl e \<Rightarrow> Inl e | Inr i \<Rightarrow> Inr (opt_member i ''id''))"

definition same_value_zero :: "jsval \<Rightarrow> jsval \<Rightarrow> bool" where
  "same_value_zero a b = (primitive a \<and> a = b)"

definition set_add :: "jsval list \<Rightarrow> jsval \<Rightarrow> jsval list" where
  "set_add seen v = (if list_ex (\<lambda>u. same_value_zero u v) seen then seen else seen @ [v])"

definition new_Set :: "jsval list \<Rightarrow> jsval list" where
  "new_Set vs = foldl set_add [] vs"

definition issueIds :: "jsval list \<Rightarrow> js_error + jsval list" where
  "issueIds worklogs =
     (case collect (map issue_id worklogs) of
        Inl e \<Rightarrow> Inl e
      | Inr ids \<Rightarrow> Inr (new_Set (filter truthy ids)))"

text \<open>
  \<^verbatim>\<open>const issueMap = {}\<close> is an ordinary object used as a dictionary, so a read
  \<^verbatim>\<open>issueMap[k]\<close> also answers for what the object inherits, and a write to the key
  \<^verbatim>\<open>__proto__\<close> replaces the prototype instead of adding an entry. The model keeps the
  entries written (\<open>own\<close>, newest first) and the object last written to \<^verbatim>\<open>__proto__\<close>
  (\<open>proto\<close>; \<open>None\<close> while the prototype is \<^verbatim>\<open>Object.prototype\<close>).
\<close>

record issue_map =
  own :: "(string \<times> jsval) list"
  proto :: "jsval option"

definition empty_issue_map :: issue_map where
  "empty_issue_map = \<lparr> own = [], proto = None \<rparr>"

definition object_prototype_names :: "string list" where
  "object_prototype_names =
     [''constructor'', ''hasOwnProperty'', ''isPrototypeOf'', ''propertyIsEnumerable'',
      ''toLocaleString'', ''toString'', ''valueOf'', ''__defineGetter__'', ''__defineSetter__'',
      ''__lookupGetter__'', ''__lookupSetter__'']"

text \<open>
  What a read finds: nothing (\<^verbatim>\<open>undefined\<close>), a value, or a member of
  \<^verbatim>\<open>Object.prototype\<close> (or that prototype itself), which is truthy and has neither a
  \<^verbatim>\<open>key\<close> nor a \<^verbatim>\<open>summary\<close>.
\<close>

datatype slot = Absent | Value jsval | Native

definition has_own :: "jsval \<Rightarrow> string \<Rightarrow> bool" where
  "has_own v k = (case v of JObj ps \<Rightarrow> map_of ps k \<noteq> None | _ \<Rightarrow> False)"

definition lookup :: "issue_map \<Rightarrow> string \<Rightarrow> slot" where
  "lookup m k =
     (if k = ''__proto__'' then (case proto m of None \<Rightarrow> Native | Some p \<Rightarrow> Value p)
      else case map_of (own m) k of
        Some v \<Rightarrow> Value v
      | None \<Rightarrow>
          (case proto m of
             Some p \<Rightarrow>
               if has_own p k then Value (get_prop p k)
               else if k \<in> set object_prototype_names then Native else Absent
           | None \<Rightarrow> if k \<in> set object_prototype_names then Native else Absent))"

definition assign :: "issue_map \<Rightarrow> string \<Rightarrow> jsval \<Rightarrow> issue_map" where
  "assign m k v =
     (if k = ''__proto__'' then m \<lparr> proto := Some v \<rparr> else m \<lparr> own := (k, v) # own m \<rparr>)"

fun slot_truthy :: "slot \<Rightarrow> bool" where
  "slot_truthy Absent = False"
| "slot_truthy (Value v) = truthy v"
| "slot_truthy Native = True"

fun slot_prop :: "slot \<Rightarrow> string \<Rightarrow> jsval" where
  "slot_prop (Value v) k = get_prop v k"
| "slot_prop s k = JUndefined"

text \<open>
  \<^verbatim>\<open>issueMap[issue.id] = { key: issue.key, summary: issue.fields.summary }\<close> for one
  element of the answer, and the \<^verbatim>\<open>for ... of\<close> over \<^verbatim>\<open>response.data.issues\<close>.
\<close>

definition add_issue :: "runtime \<Rightarrow> issue_map \<Rightarrow> jsval \<Rightarrow> js_error + issue_map" where
  "add_issue rt m issue =
     (if nullish issue then Inl (TypeError ''Cannot read properties of null or undefined: id'')
      else case to_string rt (get_prop issue ''id'') of
        Inl e \<Rightarrow> Inl e
      | Inr k \<Rightarrow>
          (case get_member (get_prop issue ''fields'') ''summary'' of
             Inl e \<Rightarrow> Inl e
           | Inr summary \<Rightarrow>
               Inr (assign m k (JObj [(''key'', get_prop issue ''key''), (''summary'', summary)]))))"

fun add_issues :: "runtime \<Rightarrow> issue_map \<Rightarrow> jsval list \<Rightarrow> js_error + issue_map" where
  "add_issues rt m [] = Inr m"
| "add_issues rt m (issue # issues) =
     (case add_issue rt m issue of Inl e \<Rightarrow> Inl e | Inr m' \<Rightarrow> add_issues rt m' issues)"

fun iterate :: "jsval \<Rightarrow> js_error + jsval list" where
  "iterate (JArr xs) = Inr xs"
| "iterate (JStr s) = Inr (characters s)"
| "iterate v = Inl (TypeError ''response.data.issues is not iterable'')"

definition build_issue_map :: "runtime \<Rightarrow> jsval \<Rightarrow> js_error + issue_map" where
  "build_issue_map rt data =
     (case get_member data ''issues'' of
        Inl e \<Rightarrow> Inl e
      | Inr v \<Rightarrow>
          (case iterate v of
             Inl e \<Rightarrow> Inl e
           | Inr issues \<Rightarrow> add_issues rt empty_issue_map issues))"

text \<open>
  The body of the second loop for one worklog. The two assignments go to the object
  \<^verbatim>\<open>worklog.issue\<close>; the test has passed only if the worklog and its issue are objects.
\<close>

definition assign_issue :: "jsval \<Rightarrow> jsval \<Rightarrow> jsval \<Rightarrow> jsval" where
  "assign_issue worklog k s =
     (case worklog of
        JObj ps \<Rightarrow>
          (case get_prop worklog ''issue'' of
             JObj qs \<Rightarrow> JObj (set_prop ps ''issue'' (JObj (set_prop (set_prop qs ''key'' k) ''summary'' s)))
           | _ \<Rightarrow> worklog)
      | _ \<Rightarrow> worklog)"

definition enrich_worklog :: "runtime \<Rightarrow> issue_map \<Rightarrow> jsval \<Rightarrow> js_error + jsval" where
  "enrich_worklog rt m worklog =
     (case issue_id worklog of
        Inl e \<Rightarrow> Inl e
      | Inr i \<Rightarrow>
          if \<not> truthy i then Inr worklog
          else (case to_string rt i of
                  Inl e \<Rightarrow> Inl e
                | Inr k \<Rightarrow>
                    if slot_truthy (lookup m k)
                    then Inr (assign_issue worklog (slot_prop (lookup m k) ''key'')
                                (slot_prop (lookup m k) ''summary''))
                    else Inr worklog))"

text \<open>
  The loop mutates in place, so when an element throws, the elements before it stay
  changed: the result is the error, if any, and the array as the loop left it.
\<close>

fun enrich_worklogs :: "runtime \<Rightarrow> issue_map \<Rightarrow> jsval list \<Rightarrow> js_error option \<times> jsval list" where
  "enrich_worklogs rt m [] = (None, [])"
| "enrich_worklogs rt m (w # ws) =
     (case enrich_worklog rt m w of
        Inl e \<Rightarrow> (Some e, w # ws)
      | Inr w' \<Rightarrow> (case enrich_worklogs rt m ws of (r, ws') \<Rightarrow> (r, w' # ws')))"

text \<open>
  The \<^verbatim>\<open>try\<close> block: the call, the map, the merge. Its result is what the \<^verbatim>\<open>catch\<close>
  gets, if anything, and the worklogs as they are afterwards.
\<close>

definition try_enrich ::
  "runtime \<Rightarrow> services \<Rightarrow> string \<Rightarrow> nat \<Rightarrow> jsval list \<Rightarrow> js_error option \<times> jsval list" where
  "try_enrich rt net jql maxResults worklogs =
     (case jira_post net jql maxResults of
        Inl e \<Rightarrow> (Some e, worklogs)
      | Inr data \<Rightarrow>
          (case build_issue_map rt data of
             Inl e \<Rightarrow> (Some e, worklogs)
           | Inr m \<Rightarrow> enrich_worklogs rt m worklogs))"

text \<open>The \<^verbatim>\<open>catch\<close> block logs the message and lets the function return.\<close>

fun catch_block :: "js_error option \<Rightarrow> event list" where
  "catch_block None = []"
| "catch_block (Some e) = [ConsoleError ''Failed to fetch issue keys from Jira:'' (error_message e)]"

definition jql_text :: "string list \<Rightarrow> string" where
  "jql_text ss = ''id in ('' @ join '','' ss @ '')''"

text \<open>
  The whole function. Collecting the identifiers and joining them into the query happen
  before the \<^verbatim>\<open>try\<close>: what they throw leaves the function.
\<close>

definition enrichWithIssueKeys ::
  "runtime \<Rightarrow> services \<Rightarrow> jsval list \<Rightarrow> event list \<Rightarrow> (js_error + jsval list) \<times> event list" where
  "enrichWithIssueKeys rt net worklogs trace =
     (case issueIds worklogs of
        Inl e \<Rightarrow> (Inl e, trace)
      | Inr ids \<Rightarrow>
          if length ids = 0 then (Inr worklogs, trace)
          else (case collect (map (to_string rt) ids) of
                  Inl e \<Rightarrow> (Inl e, trace)
                | Inr ss \<Rightarrow>
                    (case try_enrich rt net (jql_text ss) (length ids) worklogs of
                       (caught, ws) \<Rightarrow>
                         (Inr ws,
                          trace @ [JiraPost (jql_text ss) (length ids)] @ catch_block caught))))"

section \<open>The pipeline: \<^verbatim>\<open>TempoService.getWorklogs\<close>\<close>

text \<open>
  \<open>jiraClient\<close> says whether the constructor made the Jira client, that is whether a
  Jira configuration was passed.
\<close>

definition getWorklogs ::
  "runtime \<Rightarrow> services \<Rightarrow> bool \<Rightarrow> string \<Rightarrow> string
     \<Rightarrow> ((js_error + worklog_record list) \<times> event list) option" where
  "getWorklogs rt net jiraClient startDate endDate =
     (case fetch_pages rt net startDate endDate 0 [] [] of
        None \<Rightarrow> None
      | Some (Inl e, trace) \<Rightarrow> Some (Inl e, trace)
      | Some (Inr allWorklogs, trace) \<Rightarrow>
          (case (if jiraClient \<and> length allWorklogs > 0
                 then enrichWithIssueKeys rt net allWorklogs trace
                 else (Inr allWorklogs, trace)) of
             (Inl e, trace') \<Rightarrow> Some (Inl e, trace')
           | (Inr worklogs, trace') \<Rightarrow> Some (transformWorklogs rt worklogs, trace')))"

section \<open>The HTTP trigger: \<^verbatim>\<open>module.exports\<close>\<close>

subsection \<open>The date checks\<close>

definition is_digit :: "char \<Rightarrow> bool" where
  "is_digit c = (c \<in> set ''0123456789'')"

text \<open>\<^verbatim>\<open>/^\d{4}-\d{2}-\d{2}$/.test(s)\<close>: exactly ten characters, digits around two dashes.\<close>

definition dateRegex_test :: "string \<Rightarrow> bool" where
  "dateRegex_test s =
     (length s = 10 \<and> list_all is_digit (take 4 s) \<and> s ! 4 = CHR ''-'' \<and>
      list_all is_digit (take 2 (drop 5 s)) \<and> s ! 7 = CHR ''-'' \<and>
      list_all is_digit (drop 8 s))"

definition digit_value :: "char \<Rightarrow> int" where
  "digit_value c = int (of_char c) - 48"

definition decimal :: "string \<Rightarrow> int" where
  "decimal s = foldl (\<lambda>a c. 10 * a + digit_value c) 0 s"

text \<open>
  The time value of \<^verbatim>\<open>new Date(s)\<close> for a string of that form, in milliseconds, or
  \<open>None\<close> for an invalid date, as the engine (V8) parses it. Its parser first reads the
  ISO form, which takes a month from 1 to 12 and a day from 1 to 31: the date is then in
  UTC, and days count from the first of the month, so a day the month does not have rolls
  into the next month. At a month or a day outside these bounds the parser does not give
  up: it goes on in its legacy form with the three numbers read so far. The legacy form
  reads them as year, month, day only when the first cannot be a day; otherwise as month,
  day, year, with a year below 50 in the 2000s and a year from 50 to 99 in the 1900s. The
  month and the day it arrives at must be within the same bounds, and the date is in local
  time. \<open>day_from_year\<close>, the leap years and \<open>time_clip\<close> are ECMAScript's.
\<close>

definition in_leap_year :: "int \<Rightarrow> bool" where
  "in_leap_year y = (y mod 4 = 0 \<and> (y mod 100 \<noteq> 0 \<or> y mod 400 = 0))"

definition day_from_year :: "int \<Rightarrow> int" where
  "day_from_year y =
     365 * (y - 1970) + (y - 1969) div 4 - (y - 1901) div 100 + (y - 1601) div 400"

definition days_before_month :: "int \<Rightarrow> int \<Rightarrow> int" where
  "days_before_month y m =
     [0, 31, 59, 90, 120, 151, 181, 212, 243, 273, 304, 334] ! nat (m - 1) +
     (if in_leap_year y \<and> 2 < m then 1 else 0)"

definition make_day :: "int \<Rightarrow> int \<Rightarrow> int \<Rightarrow> int" where
  "make_day y m d = day_from_year y + days_before_month y m + (d - 1)"

definition is_month :: "int \<Rightarrow> bool" where
  "is_month m = (1 \<le> m \<and> m \<le> 12)"

definition is_day :: "int \<Rightarrow> bool" where
  "is_day d = (1 \<le> d \<and> d \<le> 31)"

definition legacy_year :: "int \<Rightarrow> int" where
  "legacy_year y =
     (if 0 \<le> y \<and> y \<le> 49 then y + 2000 else if 50 \<le> y \<and> y \<le> 99 then y + 1900 else y)"

definition time_clip :: "int \<Rightarrow> int option" where
  "time_clip t = (if \<bar>t\<bar> \<le> 8640000000000000 then Some t else None)"

definition legacy_date :: "runtime \<Rightarrow> int \<Rightarrow> int \<Rightarrow> int \<Rightarrow> int option" where
  "legacy_date rt a b c =
     (if \<not> is_day a
      then (if is_month b \<and> is_day c
            then time_clip (local_to_utc rt (make_day (legacy_year a) b c * 86400000))
            else None)
      else (if is_month a \<and> is_day b
            then time_clip (local_to_utc rt (make_day (legacy_year c) a b * 86400000))
            else None))"

definition new_Date :: "runtime \<Rightarrow> string \<Rightarrow> int option" where
  "new_Date rt s =
     (let y = decimal (take 4 s); m = decimal (take 2 (drop 5 s)); d = decimal (drop 8 s)
      in if is_month m \<and> is_day d then time_clip (make_day y m d * 86400000)
         else legacy_date rt y m d)"

text \<open>\<^verbatim>\<open>a > b\<close> on two dates compares the time values; an invalid date is never greater or less.\<close>

definition date_greater :: "int option \<Rightarrow> int option \<Rightarrow> bool" where
  "date_greater a b = (case (a, b) of (Some x, Some y) \<Rightarrow> y < x | _ \<Rightarrow> False)"

subsection \<open>The summary\<close>

text \<open>
  \<^verbatim>\<open>worklogs.reduce((sum, w) => sum + w.timeSpentSeconds, 0)\<close>: \<^verbatim>\<open>+\<close> adds two numbers
  and concatenates as soon as one side is a string, which an object or an array becomes.
\<close>

datatype total = Number jsnum | Text string

fun add_numbers :: "jsnum \<Rightarrow> jsnum \<Rightarrow> jsnum" where
  "add_numbers (Finite a) (Finite b) = to_double (a + b)"
| "add_numbers NaN y = NaN"
| "add_numbers x NaN = NaN"
| "add_numbers PosInfinity NegInfinity = NaN"
| "add_numbers NegInfinity PosInfinity = NaN"
| "add_numbers PosInfinity y = PosInfinity"
| "add_numbers NegInfinity y = NegInfinity"
| "add_numbers x PosInfinity = PosInfinity"
| "add_numbers x NegInfinity = NegInfinity"

fun total_to_string :: "runtime \<Rightarrow> total \<Rightarrow> string" where
  "total_to_string rt (Number n) = jsnum_to_string rt n"
| "total_to_string rt (Text s) = s"

fun total_to_number :: "runtime \<Rightarrow> total \<Rightarrow> jsnum" where
  "total_to_number rt (Number n) = n"
| "total_to_number rt (Text s) = string_to_number rt s"

text \<open>The operands that add as numbers; a string, an object or an array concatenates.\<close>

fun numeric :: "jsval \<Rightarrow> jsnum option" where
  "numeric JUndefined = Some NaN"
| "numeric JNull = Some (Finite 0)"
| "numeric (JBool b) = Some (Finite (if b then 1 else 0))"
| "numeric (JNum q) = Some (Finite q)"
| "numeric v = None"

definition js_plus :: "runtime \<Rightarrow> total \<Rightarrow> jsval \<Rightarrow> js_error + total" where
  "js_plus rt acc v =
     (case to_string rt v of
        Inl e \<Rightarrow> Inl e
      | Inr s \<Rightarrow>
          (case (acc, numeric v) of
             (Number n, Some x) \<Rightarrow> Inr (Number (add_numbers n x))
           | _ \<Rightarrow> Inr (Text (total_to_string rt acc @ s))))"

fun reduce :: "runtime \<Rightarrow> total \<Rightarrow> worklog_record list \<Rightarrow> js_error + total" where
  "reduce rt acc [] = Inr acc"
| "reduce rt acc (w # ws) =
     (case js_plus rt acc (timeSpentSeconds w) of Inl e \<Rightarrow> Inl e | Inr acc' \<Rightarrow> reduce rt acc' ws)"

subsection \<open>Request, configuration, response\<close>

record request =
  startDate :: "string option"
  endDate :: "string option"
  format :: "string option"

record environment =
  TEMPO_API_TOKEN :: "string option"
  JIRA_API_TOKEN :: "string option"
  JIRA_EMAIL :: "string option"
  JIRA_BASE_URL :: "string option"

record summary =
  totalWorklogs :: nat
  totalHours :: jsnum
  totalSeconds :: total

datatype body =
    Object "(string \<times> jsval) list"
  | Flat "worklog_record list"
  | Full string string summary "worklog_record list"

record response =
  status :: nat
  headers :: "(string \<times> string) list"
  body :: body

definition json :: "nat \<Rightarrow> body \<Rightarrow> response" where
  "json st b = \<lparr> status = st, headers = [(''Content-Type'', ''application/json'')], body = b \<rparr>"

text \<open>\<^verbatim>\<open>!x\<close> on a query parameter or an environment variable: a string or \<^verbatim>\<open>undefined\<close>.\<close>

fun missing :: "string option \<Rightarrow> bool" where
  "missing None = True"
| "missing (Some s) = (s = [])"

text \<open>The string of a parameter that is there.\<close>

fun param :: "string option \<Rightarrow> string" where
  "param None = []"
| "param (Some s) = s"

fun string_or_undefined :: "string option \<Rightarrow> jsval" where
  "string_or_undefined None = JUndefined"
| "string_or_undefined (Some s) = JStr s"

text \<open>The \<^verbatim>\<open>catch\<close> block: \<^verbatim>\<open>error.response?.status || 500\<close> and the body.\<close>

fun response_status :: "js_error \<Rightarrow> nat" where
  "response_status (RequestError m (Some (st, d))) = st"
| "response_status e = 0"

fun response_data :: "js_error \<Rightarrow> jsval" where
  "response_data (RequestError m (Some (st, d))) = d"
| "response_data e = JUndefined"

definition failure :: "js_error \<Rightarrow> response" where
  "failure e =
     json (if response_status e \<noteq> 0 then response_status e else 500)
       (Object
          [(''error'', JStr ''Failed to retrieve worklogs''),
           (''message'', js_or (opt_member (response_data e) ''message'') (JStr (error_message e))),
           (''details'', js_or (response_data e) JNull)])"

definition success :: "runtime \<Rightarrow> request \<Rightarrow> worklog_record list \<Rightarrow> js_error + response" where
  "success rt req worklogs =
     (case reduce rt (Number (Finite 0)) worklogs of
        Inl e \<Rightarrow> Inl e
      | Inr seconds \<Rightarrow>
          (let hours = toFixed_2 rt (divide_3600 (total_to_number rt seconds))
           in if format req = Some ''flat'' then Inr (json 200 (Flat worklogs))
              else Inr (json 200
                     (Full (param (startDate req)) (param (endDate req))
                        \<lparr> totalWorklogs = length worklogs,
                          totalHours = parse_float rt hours,
                          totalSeconds = seconds \<rparr>
                        worklogs))))"

definition handler ::
  "runtime \<Rightarrow> services \<Rightarrow> environment \<Rightarrow> request \<Rightarrow> (response \<times> event list) option" where
  "handler rt net env req =
     (let trace = [ContextLog ''GetWorklogs function triggered'']
      in if missing (startDate req) \<or> missing (endDate req)
         then Some (json 400
                (Object
                   [(''error'', JStr ''Missing required parameters''),
                    (''message'', JStr ''Both startDate and endDate query parameters are required (format: YYYY-MM-DD)''),
                    (''example'', JStr ''/api/worklogs?startDate=2026-01-01&endDate=2026-01-31'')]),
              trace)
         else if \<not> dateRegex_test (param (startDate req)) \<or>
                 \<not> dateRegex_test (param (endDate req))
         then Some (json 400
                (Object
                   [(''error'', JStr ''Invalid date format''),
                    (''message'', JStr ''Dates must be in YYYY-MM-DD format''),
                    (''provided'', JObj [(''startDate'', string_or_undefined (startDate req)),
                                         (''endDate'', string_or_undefined (endDate req))])]),
              trace)
         else if date_greater (new_Date rt (param (startDate req)))
                   (new_Date rt (param (endDate req)))
         then Some (json 400
                (Object
                   [(''error'', JStr ''Invalid date range''),
                    (''message'', JStr ''startDate must be before or equal to endDate'')]),
              trace)
         else if missing (TEMPO_API_TOKEN env)
         then Some (json 500
                (Object
                   [(''error'', JStr ''Configuration error''),
                    (''message'', JStr ''TEMPO_API_TOKEN is not configured'')]),
              trace)
         else (case getWorklogs rt net (\<not> missing (JIRA_API_TOKEN env))
                      (param (startDate req)) (param (endDate req)) of
                 None \<Rightarrow> None
               | Some (Inl e, calls) \<Rightarrow>
                   Some (failure e,
                     trace @ calls @ [ContextLogError ''Error fetching worklogs:'' (error_message e)])
               | Some (Inr worklogs, calls) \<Rightarrow>
                   (case success rt req worklogs of
                      Inl e \<Rightarrow>
                        Some (failure e,
                          trace @ calls @
                          [ContextLogError ''Error fetching worklogs:'' (error_message e)])
                    | Inr res \<Rightarrow> Some (res, trace @ calls))))"

section \<open>Notions of the specification\<close>

text \<open>
  A response reports a next page when its metadata carries a truthy \<^verbatim>\<open>next\<close>.
\<close>

definition reports_next :: "jsval \<Rightarrow> bool" where
  "reports_next data = truthy (opt_member (get_prop data ''metadata'') ''next'')"

text \<open>
  The identifier of the issue a worklog refers to is, when present, a primitive value too.
\<close>

definition plain_worklog :: "jsval \<Rightarrow> bool" where
  "plain_worklog w = (raw_worklog w \<and> primitive (opt_member (get_prop w ''issue'') ''id''))"

text \<open>
  A record is the normalization of a worklog up to the issue key and the issue summary,
  the two fields enrichment may set.
\<close>

definition normalized_from :: "runtime \<Rightarrow> jsval \<Rightarrow> worklog_record \<Rightarrow> bool" where
  "normalized_from rt w r' =
     (case transformWorklog rt w of
        Inl e \<Rightarrow> False
      | Inr r \<Rightarrow> r' = r\<lparr> issueKey := issueKey r', issueSummary := issueSummary r' \<rparr>)"

fun is_tempo_get :: "event \<Rightarrow> bool" where
  "is_tempo_get (TempoGet s e offset n) = True"
| "is_tempo_get ev = False"

text \<open>
  The batched lookup for a query and a batch size throws an error: the call fails (no
  connection, a refused login, a batch the server rejects) or it answers with data the map
  cannot be built from.
\<close>

definition lookup_throws :: "runtime \<Rightarrow> services \<Rightarrow> string \<Rightarrow> nat \<Rightarrow> js_error \<Rightarrow> bool" where
  "lookup_throws rt net jql maxResults err =
     (case jira_post net jql maxResults of
        Inl e \<Rightarrow> e = err
      | Inr data \<Rightarrow> build_issue_map rt data = Inl err)"

text \<open>
  The calendar: a string names a day when it has the form \<^verbatim>\<open>YYYY-MM-DD\<close>, its month is
  one of the twelve and its day is one the month has. A range is inverted when both ends
  name a day and the start is the later one.
\<close>

definition days_in_month :: "int \<Rightarrow> int \<Rightarrow> int" where
  "days_in_month y m =
     (if m = 2 then (if in_leap_year y then 29 else 28)
      else if m = 4 \<or> m = 6 \<or> m = 9 \<or> m = 11 then 30 else 31)"

definition calendar_date :: "string \<Rightarrow> (int \<times> int \<times> int) option" where
  "calendar_date s =
     (let y = decimal (take 4 s); m = decimal (take 2 (drop 5 s)); d = decimal (drop 8 s)
      in if dateRegex_test s \<and> 1 \<le> m \<and> m \<le> 12 \<and> 1 \<le> d \<and> d \<le> days_in_month y m
         then Some (y, m, d) else None)"

fun later :: "int \<times> int \<times> int \<Rightarrow> int \<times> int \<times> int \<Rightarrow> bool" where
  "later (y, m, d) (y', m', d') = (y' < y \<or> (y' = y \<and> (m' < m \<or> (m' = m \<and> d' < d))))"

definition inverted_range :: "string \<Rightarrow> string \<Rightarrow> bool" where
  "inverted_range s e =
     (case (calendar_date s, calendar_date e) of
        (Some a, Some b) \<Rightarrow> later a b
      | _ \<Rightarrow> False)"

text \<open>
  The decimal numeral of \<open>m / 100\<close> with exactly two fraction digits.
\<close>

definition two_decimals :: "nat \<Rightarrow> string" where
  "two_decimals m =
     digits (m div 100) @ ''.'' @ [digit_char (m div 10 mod 10), digit_char (m mod 10)]"

section \<open>Examples used below\<close>

definition bare_worklog :: jsval where
  "bare_worklog = JObj [(''tempoWorklogId'', JNum 101), (''timeSpentSeconds'', JNum 5400)]"

definition falsy_worklog :: jsval where
  "falsy_worklog =
     JObj [(''tempoWorklogId'', JNum 7),
           (''issue'', JObj [(''id'', JNum 0), (''key'', JStr [])]),
           (''author'', JObj [(''accountId'', JStr ''a1''), (''displayName'', JStr [])]),
           (''startTime'', JNum 0),
           (''description'', JStr []),
           (''timeSpentSeconds'', JNum 60)]"

text \<open>
  Three worklogs as the time-tracking service sends them, on two pages: the first page
  reports a next one, the second does not.
\<close>

definition login_worklog :: jsval where
  "login_worklog =
     JObj [(''tempoWorklogId'', JNum 201),
           (''issue'', JObj [(''id'', JNum 10001)]),
           (''timeSpentSeconds'', JNum 5400),
           (''startDate'', JStr ''2026-01-05''),
           (''author'', JObj [(''accountId'', JStr ''u1''), (''displayName'', JStr ''Ada'')])]"

definition review_worklog :: jsval where
  "review_worklog =
     JObj [(''tempoWorklogId'', JNum 202),
           (''issue'', JObj [(''id'', JNum 10002)]),
           (''timeSpentSeconds'', JNum 1800),
           (''startDate'', JStr ''2026-01-06'')]"

definition first_page :: jsval where
  "first_page =
     JObj [(''results'', JArr [login_worklog, review_worklog]),
           (''metadata'', JObj [(''count'', JNum 2), (''next'', JStr ''/4/worklogs?offset=50'')])]"

definition second_page :: jsval where
  "second_page =
     JObj [(''results'', JArr [bare_worklog]), (''metadata'', JObj [(''count'', JNum 1)])]"

definition two_pages :: "string \<Rightarrow> string \<Rightarrow> nat \<Rightarrow> nat \<Rightarrow> js_error + jsval" where
  "two_pages s e offset n = Inr (if offset = 0 then first_page else second_page)"

text \<open>The issue-tracking service knows the first issue; or it cannot be reached.\<close>

definition found_issues :: jsval where
  "found_issues =
     JObj [(''issues'',
            JArr [JObj [(''id'', JStr ''10001''), (''key'', JStr ''PROJ-1''),
                        (''fields'', JObj [(''summary'', JStr ''Fix login'')])]])]"

definition answering :: services where
  "answering = \<lparr> tempo_get = two_pages, jira_post = (\<lambda>jql k. Inr found_issues) \<rparr>"

definition unreachable :: services where
  "unreachable =
     \<lparr> tempo_get = two_pages,
       jira_post = (\<lambda>jql k. Inl (RequestError ''connect ECONNREFUSED'' None)) \<rparr>"

text \<open>
  An issue-tracking service that rejects a batch of more than one issue, and one that
  answers without a body.
\<close>

definition batch_limited :: services where
  "batch_limited =
     \<lparr> tempo_get = two_pages,
       jira_post =
         (\<lambda>jql k.
            if 1 < k
            then Inl (RequestError ''Request failed with status code 400''
                        (Some (400, JObj [(''errorMessages'', JArr [JStr ''Batch too large''])])))
            else Inr found_issues) \<rparr>"

definition speechless :: services where
  "speechless = \<lparr> tempo_get = two_pages, jira_post = (\<lambda>jql k. Inr JNull) \<rparr>"

text \<open>A time-tracking service that answers the second call with status 429.\<close>

definition throttled :: services where
  "throttled =
     \<lparr> tempo_get =
         (\<lambda>s e offset n.
            if offset = 0 then Inr first_page
            else Inl (RequestError ''Request failed with status code 429''
                        (Some (429, JObj [(''message'', JStr ''Too many requests'')])))),
       jira_post = (\<lambda>jql k. Inr found_issues) \<rparr>"

definition january :: request where
  "january = \<lparr> startDate = Some ''2026-01-01'', endDate = Some ''2026-01-31'', format = None \<rparr>"

definition inverted :: request where
  "inverted = \<lparr> startDate = Some ''2026-02-01'', endDate = Some ''2026-01-01'', format = None \<rparr>"

text \<open>
  Requests whose dates have the required shape and name no calendar day, and a
  time-tracking service with nothing to report.
\<close>

definition thirteenth_month :: request where
  "thirteenth_month =
     \<lparr> startDate = Some ''2026-13-45'', endDate = Some ''2026-01-01'', format = Some ''flat'' \<rparr>"

definition thirtieth_of_february :: request where
  "thirtieth_of_february =
     \<lparr> startDate = Some ''2026-03-02'', endDate = Some ''2026-02-30'', format = Some ''flat'' \<rparr>"

definition nothing_logged :: services where
  "nothing_logged =
     \<lparr> tempo_get = (\<lambda>s e offset n. Inr (JObj [(''results'', JArr []), (''metadata'', JObj [])])),
       jira_post = (\<lambda>jql k. Inr found_issues) \<rparr>"

definition configured :: environment where
  "configured =
     \<lparr> TEMPO_API_TOKEN = Some ''tempo-token'', JIRA_API_TOKEN = Some ''jira-token'',
       JIRA_EMAIL = Some ''ops@example.org'', JIRA_BASE_URL = Some ''https://example.atlassian.net'' \<rparr>"

text \<open>The first worklog after enrichment by the answering service.\<close>

definition enriched_login_worklog :: jsval where
  "enriched_login_worklog =
     JObj [(''tempoWorklogId'', JNum 201),
           (''issue'', JObj [(''id'', JNum 10001), (''key'', JStr ''PROJ-1''),
                             (''summary'', JStr ''Fix login'')]),
           (''timeSpentSeconds'', JNum 5400),
           (''startDate'', JStr ''2026-01-05''),
           (''author'', JObj [(''accountId'', JStr ''u1''), (''displayName'', JStr ''Ada'')])]"

text \<open>
  Two services that hold a list of records and send the window asked for. The first
  reports a next page exactly when the page it sends is full; the second, truthfully, when
  records remain after the page. Fifty records tell them apart. And a runtime for closed
  examples, none of which reaches its conversions.
\<close>

definition window :: "jsval list \<Rightarrow> nat \<Rightarrow> nat \<Rightarrow> bool \<Rightarrow> jsval" where
  "window records offset n marker =
     JObj [(''results'', JArr (take n (drop offset records))),
           (''metadata'', JObj (if marker then [(''next'', JStr ''/4/worklogs?next'')] else []))]"

definition marking_full :: "jsval list \<Rightarrow> services" where
  "marking_full records =
     \<lparr> tempo_get =
         (\<lambda>s e offset n.
            Inr (window records offset n (length (take n (drop offset records)) = n))),
       jira_post = (\<lambda>jql k. Inr found_issues) \<rparr>"

definition marking_rest :: "jsval list \<Rightarrow> services" where
  "marking_rest records =
     \<lparr> tempo_get = (\<lambda>s e offset n. Inr (window records offset n (offset + n < length records))),
       jira_post = (\<lambda>jql k. Inr found_issues) \<rparr>"

definition fifty :: "jsval list" where
  "fifty = replicate 50 bare_worklog"

definition idle_runtime :: runtime where
  "idle_runtime =
     \<lparr> number_to_string_other = (\<lambda>q. []),
       string_to_number = (\<lambda>s. NaN),
       parse_float = (\<lambda>s. NaN),
       local_to_utc = (\<lambda>t. t) \<rparr>"

text \<open>
  A worklog whose issue identifier is the string \<^verbatim>\<open>toString\<close> and which has a key of its
  own, and an issue-tracking service that finds no issue.
\<close>

definition inherited_worklog :: jsval where
  "inherited_worklog =
     JObj [(''tempoWorklogId'', JNum 301),
           (''issue'', JObj [(''id'', JStr ''toString''), (''key'', JStr ''OLD-1'')]),
           (''timeSpentSeconds'', JNum 60)]"

definition finds_nothing :: services where
  "finds_nothing =
     \<lparr> tempo_get = two_pages, jira_post = (\<lambda>jql k. Inr (JObj [(''issues'', JArr [])])) \<rparr>"

section \<open>Decimal digits\<close>

lemma digits_small: "n < 10 \<Longrightarrow> digits n = [digit_char n]"
  by (simp add: digits.simps)

lemma digits_large: "10 \<le> n \<Longrightarrow> digits n = digits (n div 10) @ [digit_char (n mod 10)]"
  by (subst digits.simps) simp

lemma number_to_string_nat: "n < 2 ^ 53 \<Longrightarrow> number_to_string rt (of_nat n) = digits n"
proof -
  assume "n < 2 ^ 53"
  then have "rat_of_nat n < rat_of_nat (2 ^ 53)"
    by (simp only: of_nat_less_iff)
  then show ?thesis
    by (simp add: number_to_string_def)
qed

section \<open>The normalizer is total and applies its defaults\<close>

lemma collect_map_Inr:
  "(\<And>x. x \<in> set xs \<Longrightarrow> f x = Inr (g x)) \<Longrightarrow> collect (map f xs) = Inr (map g xs)"
  by (induction xs) auto

lemma to_number_primitive: "primitive v \<Longrightarrow> \<exists>n. to_number rt v = Inr n"
  by (cases v) auto

lemma transformWorklog_raw:
  assumes "raw_worklog w"
  shows "\<exists>r. transformWorklog rt w = Inr r"
proof -
  from assms obtain ps where w: "w = JObj ps"
    by (cases w) (auto simp: raw_worklog_def)
  from assms obtain n where "to_number rt (get_prop w ''timeSpentSeconds'') = Inr n"
    using to_number_primitive unfolding raw_worklog_def by blast
  then show ?thesis
    by (simp add: transformWorklog_def w)
qed

lemma transformWorklog_fields:
  assumes "transformWorklog rt w = Inr r"
  shows "id' r = get_prop w ''tempoWorklogId''"
    and "issueKey r = js_or (opt_member (get_prop w ''issue'') ''key'') (JStr ''N/A'')"
    and "issueId r = js_or (opt_member (get_prop w ''issue'') ''id'') JNull"
    and "issueSummary r = js_or (opt_member (get_prop w ''issue'') ''summary'') JNull"
    and "startTime r = js_or (get_prop w ''startTime'') JNull"
    and "description r = js_or (get_prop w ''description'') (JStr [])"
    and "accountId (author r) = js_or (opt_member (get_prop w ''author'') ''accountId'') JNull"
    and "displayName (author r) =
           js_or (opt_member (get_prop w ''author'') ''displayName'') (JStr ''Unknown'')"
    and "timeSpentSeconds r = get_prop w ''timeSpentSeconds''"
  using assms by (auto simp: transformWorklog_def split: if_splits sum.splits)

lemma raw_bare_worklog: "raw_worklog bare_worklog"
  by (simp add: raw_worklog_def bare_worklog_def)

lemma raw_falsy_worklog: "raw_worklog falsy_worklog"
  by (simp add: raw_worklog_def falsy_worklog_def)

text \<open>
  Claim C3. \<^verbatim>\<open>transformWorklogs\<close> never throws on raw worklogs: it returns one record
  per worklog, in order, each the image of the worklog at its place; and a worklog whose
  \<^verbatim>\<open>issue\<close>, \<^verbatim>\<open>author\<close> and \<^verbatim>\<open>description\<close> are absent gets the issue key
  \<^verbatim>\<open>"N/A"\<close>, a \<^verbatim>\<open>null\<close> issue id and summary, the author
  \<^verbatim>\<open>{accountId: null, displayName: "Unknown"}\<close> and the empty description.
\<close>

theorem transformWorklogs_total:
  assumes "\<forall>w \<in> set worklogs. raw_worklog w"
  shows "\<exists>records. transformWorklogs rt worklogs = Inr records \<and>
           length records = length worklogs \<and>
           (\<forall>i < length worklogs.
              transformWorklog rt (worklogs ! i) = Inr (records ! i) \<and>
              (get_prop (worklogs ! i) ''issue'' = JUndefined \<and>
               get_prop (worklogs ! i) ''author'' = JUndefined \<and>
               get_prop (worklogs ! i) ''description'' = JUndefined \<longrightarrow>
               issueKey (records ! i) = JStr ''N/A'' \<and>
               issueId (records ! i) = JNull \<and>
               issueSummary (records ! i) = JNull \<and>
               author (records ! i) = \<lparr> accountId = JNull, displayName = JStr ''Unknown'' \<rparr> \<and>
               description (records ! i) = JStr []))"
proof -
  let ?g = "\<lambda>w. projr (transformWorklog rt w)"
  have each: "transformWorklog rt w = Inr (?g w)" if "w \<in> set worklogs" for w
    using transformWorklog_raw [of w rt] assms that by auto
  then have all: "transformWorklogs rt worklogs = Inr (map ?g worklogs)"
    unfolding transformWorklogs_def by (rule collect_map_Inr)
  have defaults:
    "issueKey (?g w) = JStr ''N/A'' \<and> issueId (?g w) = JNull \<and> issueSummary (?g w) = JNull \<and>
     author (?g w) = \<lparr> accountId = JNull, displayName = JStr ''Unknown'' \<rparr> \<and>
     description (?g w) = JStr []"
    if "w \<in> set worklogs" "get_prop w ''issue'' = JUndefined"
       "get_prop w ''author'' = JUndefined" "get_prop w ''description'' = JUndefined" for w
  proof -
    from each [OF that(1)] obtain r where r: "transformWorklog rt w = Inr r" by blast
    then show ?thesis using that(2-4)
      by (auto simp: transformWorklog_def js_or_def opt_member_def split: if_splits sum.splits)
  qed
  show ?thesis
    using all each defaults by (intro exI [of _ "map ?g worklogs"]) auto
qed

theorem transformWorklogs_total_witness:
  "\<forall>rt. raw_worklog bare_worklog \<and>
     (\<exists>records.
        transformWorklogs rt [bare_worklog] = Inr records \<and>
        length records = 1 \<and>
        issueKey (records ! 0) = JStr ''N/A'' \<and>
        issueId (records ! 0) = JNull \<and>
        issueSummary (records ! 0) = JNull \<and>
        author (records ! 0) = \<lparr> accountId = JNull, displayName = JStr ''Unknown'' \<rparr> \<and>
        description (records ! 0) = JStr [])"
proof
  fix rt
  have absent: "get_prop bare_worklog ''issue'' = JUndefined"
    "get_prop bare_worklog ''author'' = JUndefined"
    "get_prop bare_worklog ''description'' = JUndefined"
    by (simp_all add: bare_worklog_def)
  have "\<exists>records.
        transformWorklogs rt [bare_worklog] = Inr records \<and>
        length records = 1 \<and>
        issueKey (records ! 0) = JStr ''N/A'' \<and>
        issueId (records ! 0) = JNull \<and>
        issueSummary (records ! 0) = JNull \<and>
        author (records ! 0) = \<lparr> accountId = JNull, displayName = JStr ''Unknown'' \<rparr> \<and>
        description (records ! 0) = JStr []"
    using transformWorklogs_total [of "[bare_worklog]" rt] raw_bare_worklog absent
    apply simp
    apply (erule exE)
    subgoal for records
      apply (rule exI [of _ records])
      apply simp
      done
    done
  with raw_bare_worklog show "raw_worklog bare_worklog \<and>
     (\<exists>records.
        transformWorklogs rt [bare_worklog] = Inr records \<and>
        length records = 1 \<and>
        issueKey (records ! 0) = JStr ''N/A'' \<and>
        issueId (records ! 0) = JNull \<and>
        issueSummary (records ! 0) = JNull \<and>
        author (records ! 0) = \<lparr> accountId = JNull, displayName = JStr ''Unknown'' \<rparr> \<and>
        description (records ! 0) = JStr [])"
    by blast
qed

text \<open>
  Claim C10. The defaults go by truthiness, not by absence: for a raw worklog, an issue id
  that is \<open>0\<close> or the empty string gives a \<^verbatim>\<open>null\<close> issue id, a falsy issue key gives
  \<^verbatim>\<open>"N/A"\<close>, an empty display name gives \<^verbatim>\<open>"Unknown"\<close>, a start time that is the
  empty string or \<open>0\<close> gives \<^verbatim>\<open>null\<close>, and an empty description stays empty.
\<close>

theorem transformWorklog_truthiness:
  assumes "raw_worklog w"
  shows "\<exists>r. transformWorklog rt w = Inr r \<and>
     (opt_member (get_prop w ''issue'') ''id'' \<in> {JNum 0, JStr []} \<longrightarrow> issueId r = JNull) \<and>
     (\<not> truthy (opt_member (get_prop w ''issue'') ''key'') \<longrightarrow> issueKey r = JStr ''N/A'') \<and>
     (opt_member (get_prop w ''author'') ''displayName'' = JStr [] \<longrightarrow>
        displayName (author r) = JStr ''Unknown'') \<and>
     (get_prop w ''startTime'' \<in> {JStr [], JNum 0} \<longrightarrow> startTime r = JNull) \<and>
     (get_prop w ''description'' = JStr [] \<longrightarrow> description r = JStr [])"
proof -
  from transformWorklog_raw [OF assms, of rt] obtain r where r: "transformWorklog rt w = Inr r"
    by blast
  have "opt_member (get_prop w ''issue'') ''id'' \<in> {JNum 0, JStr []} \<longrightarrow> issueId r = JNull"
    by (auto simp: transformWorklog_fields(3) [OF r] js_or_def)
  moreover have "\<not> truthy (opt_member (get_prop w ''issue'') ''key'') \<longrightarrow> issueKey r = JStr ''N/A''"
    by (simp add: transformWorklog_fields(2) [OF r] js_or_def)
  moreover have "opt_member (get_prop w ''author'') ''displayName'' = JStr [] \<longrightarrow>
        displayName (author r) = JStr ''Unknown''"
    by (simp add: transformWorklog_fields(8) [OF r] js_or_def)
  moreover have "get_prop w ''startTime'' \<in> {JStr [], JNum 0} \<longrightarrow> startTime r = JNull"
    by (auto simp: transformWorklog_fields(5) [OF r] js_or_def)
  moreover have "get_prop w ''description'' = JStr [] \<longrightarrow> description r = JStr []"
    by (simp add: transformWorklog_fields(6) [OF r] js_or_def)
  ultimately show ?thesis
    using r by blast
qed

theorem transformWorklog_truthiness_witness:
  "\<forall>rt. raw_worklog falsy_worklog \<and>
     (\<exists>r. transformWorklog rt falsy_worklog = Inr r \<and>
        issueId r = JNull \<and> issueKey r = JStr ''N/A'' \<and>
        displayName (author r) = JStr ''Unknown'' \<and>
        startTime r = JNull \<and> description r = JStr [])"
proof
  fix rt
  have "\<exists>r. transformWorklog rt falsy_worklog = Inr r \<and>
        issueId r = JNull \<and> issueKey r = JStr ''N/A'' \<and>
        displayName (author r) = JStr ''Unknown'' \<and>
        startTime r = JNull \<and> description r = JStr []"
    using transformWorklog_truthiness [OF raw_falsy_worklog, of rt]
    by (simp add: opt_member_def falsy_worklog_def)
  with raw_falsy_worklog show "raw_worklog falsy_worklog \<and>
     (\<exists>r. transformWorklog rt falsy_worklog = Inr r \<and>
        issueId r = JNull \<and> issueKey r = JStr ''N/A'' \<and>
        displayName (author r) = JStr ''Unknown'' \<and>
        startTime r = JNull \<and> description r = JStr [])"
    by blast
qed

text \<open>
  The division converts the time spent to a number. A parsed object with a property
  \<open>toString\<close> of its own has no primitive value, which is why the worklogs above carry a
  primitive there.
\<close>

lemma transformWorklog_object_seconds:
  "transformWorklog rt (JObj [(''timeSpentSeconds'', JObj [(''toString'', JNum 1)])]) =
     Inl (TypeError ''Cannot convert object to primitive value'')"
  by (simp add: transformWorklog_def)

section \<open>Hours with two decimals\<close>

lemma round_half_even_error: "\<bar>rat_of_int (round_half_even x) - x\<bar> \<le> 1 / 2"
proof -
  have f: "rat_of_int \<lfloor>x\<rfloor> \<le> x" "x < rat_of_int \<lfloor>x\<rfloor> + 1"
    by linarith+
  show ?thesis
    unfolding round_half_even_def Let_def using f
    by (auto simp: abs_le_iff)
qed

lemma ilog2_lower:
  assumes "0 < q"
  shows "power_int 2 (ilog2 q) \<le> q"
proof -
  obtain a b where ab: "quotient_of q = (a, b)" by (cases "quotient_of q")
  then have b: "0 < b" and q: "q = rat_of_int a / rat_of_int b"
    using quotient_of_denom_pos quotient_of_div by blast+
  from assms q b have a: "0 < a"
    by (simp add: zero_less_divide_iff)
  let ?d = "bitlen a - bitlen b"
  show ?thesis
  proof (cases "power_int 2 ?d \<le> q")
    case True
    then show ?thesis by (simp add: ilog2_def ab)
  next
    case False
    then have il: "ilog2 q = ?d - 1" by (simp add: ilog2_def ab)
    from bitlen_bounds [OF a] have "2 ^ nat (bitlen a - 1) \<le> a" by simp
    then have "rat_of_int (2 ^ nat (bitlen a - 1)) \<le> rat_of_int a"
      by (simp only: of_int_le_iff)
    then have la: "(2::rat) ^ nat (bitlen a - 1) \<le> rat_of_int a" by simp
    from bitlen_bounds [OF b] have "b < 2 ^ nat (bitlen b)" by simp
    then have "rat_of_int b < rat_of_int (2 ^ nat (bitlen b))"
      by (simp only: of_int_less_iff)
    then have lb: "rat_of_int b \<le> (2::rat) ^ nat (bitlen b)" by simp
    have "bitlen a \<noteq> 0" using a by (simp add: bitlen_eq_zero_iff)
    with bitlen_nonneg [of a] have posa: "1 \<le> bitlen a" by linarith
    have posb: "0 \<le> bitlen b" by (rule bitlen_nonneg)
    have "power_int (2::rat) (?d - 1) = power_int 2 (bitlen a - 1) / power_int 2 (bitlen b)"
      by (simp add: power_int_diff)
    also have "\<dots> = 2 ^ nat (bitlen a - 1) / 2 ^ nat (bitlen b)"
      using posa posb by (simp add: power_int_def)
    also have "\<dots> \<le> rat_of_int a / rat_of_int b"
      using la lb b a by (intro frac_le) auto
    finally show ?thesis using il q by simp
  qed
qed

lemma ilog2_upper:
  assumes "0 < q" "q < 2 ^ 42"
  shows "ilog2 q \<le> 41"
proof (rule ccontr)
  assume "\<not> ilog2 q \<le> 41"
  then have "42 \<le> ilog2 q" by simp
  then have "power_int (2::rat) 42 \<le> power_int 2 (ilog2 q)"
    by (intro power_int_increasing) auto
  also have "\<dots> \<le> q" using assms(1) by (rule ilog2_lower)
  finally show False using assms(2) by simp
qed

text \<open>So \<^const>\<open>ilog2\<close> is the binary exponent: \<open>2\<^sup>e \<le> q < 2\<^sup>e\<^sup>+\<^sup>1\<close>.\<close>

lemma ilog2_less:
  assumes "0 < q"
  shows "q < power_int 2 (ilog2 q + 1)"
proof -
  obtain a b where ab: "quotient_of q = (a, b)" by (cases "quotient_of q")
  then have b: "0 < b" and q: "q = rat_of_int a / rat_of_int b"
    using quotient_of_denom_pos quotient_of_div by blast+
  from assms q b have a: "0 < a"
    by (simp add: zero_less_divide_iff)
  let ?d = "bitlen a - bitlen b"
  show ?thesis
  proof (cases "power_int 2 ?d \<le> q")
    case False
    then show ?thesis by (simp add: ilog2_def ab)
  next
    case True
    then have il: "ilog2 q = ?d" by (simp add: ilog2_def ab)
    from bitlen_bounds [OF a] have "a < 2 ^ nat (bitlen a)" by simp
    then have "rat_of_int a < rat_of_int (2 ^ nat (bitlen a))"
      by (simp only: of_int_less_iff)
    then have la: "rat_of_int a < (2::rat) ^ nat (bitlen a)" by simp
    from bitlen_bounds [OF b] have "2 ^ nat (bitlen b - 1) \<le> b" by simp
    then have "rat_of_int (2 ^ nat (bitlen b - 1)) \<le> rat_of_int b"
      by (simp only: of_int_le_iff)
    then have lb: "(2::rat) ^ nat (bitlen b - 1) \<le> rat_of_int b" by simp
    have "bitlen b \<noteq> 0" using b by (simp add: bitlen_eq_zero_iff)
    with bitlen_nonneg [of b] have posb: "1 \<le> bitlen b" by linarith
    have posa: "0 \<le> bitlen a" by (rule bitlen_nonneg)
    have "rat_of_int a / rat_of_int b < 2 ^ nat (bitlen a) / 2 ^ nat (bitlen b - 1)"
      using la lb b a by (intro frac_less) auto
    also have "\<dots> = power_int 2 (bitlen a) / power_int 2 (bitlen b - 1)"
      using posa posb by (simp add: power_int_def)
    also have "\<dots> = power_int (2::rat) (?d + 1)"
      by (simp add: power_int_diff [symmetric] algebra_simps)
    finally show ?thesis using il q by simp
  qed
qed

lemma round_double_error:
  assumes "0 < q" "q < 2 ^ 42"
  shows "\<bar>round_double q - q\<bar> \<le> 1 / 2 ^ 12"
proof -
  define e where "e = max (ilog2 \<bar>q\<bar>) (- 1022)"
  define u :: rat where "u = power_int 2 (e - 52)"
  have e: "e \<le> 41"
    using ilog2_upper [OF assms] assms(1) by (simp add: e_def)
  have u_pos: "0 < u" by (simp add: u_def)
  have "u \<le> power_int 2 (- 11)"
    unfolding u_def using e by (intro power_int_increasing) auto
  then have u_le: "u \<le> 1 / 2 ^ 11"
    by (simp add: power_int_minus_divide)
  have rd: "round_double q = rat_of_int (round_half_even (q / u)) * u"
    using assms(1) by (simp add: round_double_def e_def u_def Let_def)
  have "\<bar>round_double q - q\<bar> = \<bar>rat_of_int (round_half_even (q / u)) - q / u\<bar> * u"
  proof -
    have "round_double q - q = (rat_of_int (round_half_even (q / u)) - q / u) * u"
      using u_pos by (simp add: rd field_simps)
    then show ?thesis using u_pos by (simp add: abs_mult)
  qed
  also have "\<dots> \<le> (1 / 2) * u"
    using round_half_even_error [of "q / u"] u_pos by (intro mult_right_mono) auto
  also have "\<dots> \<le> (1 / 2) * (1 / 2 ^ 11)"
    using u_le by simp
  finally show ?thesis by simp
qed

lemma seconds_in_range:
  assumes "n < 2 ^ 53"
  shows "rat_of_nat n / 3600 < 2 ^ 42"
proof -
  from assms have "rat_of_nat n < rat_of_nat (2 ^ 53)"
    by (simp only: of_nat_less_iff)
  then have "rat_of_nat n < 2 ^ 53" by simp
  then show ?thesis by simp
qed

lemma divide_3600_seconds:
  assumes "n < 2 ^ 53"
  shows "\<exists>r. divide_3600 (Finite (rat_of_nat n)) = Finite r \<and> 0 \<le> r \<and> r < 10 ^ 21 \<and>
           \<bar>r - rat_of_nat n / 3600\<bar> \<le> 1 / 2 ^ 12"
proof (cases "n = 0")
  case True
  then show ?thesis by (simp add: to_double_def round_double_def)
next
  case False
  let ?q = "rat_of_nat n / 3600"
  from False have pos: "0 < ?q" by simp
  have small: "?q < 2 ^ 42" using assms by (rule seconds_in_range)
  have err: "\<bar>round_double ?q - ?q\<bar> \<le> 1 / 2 ^ 12"
    using pos small by (rule round_double_error)
  from False have "1 \<le> n" by simp
  then have "rat_of_nat 1 \<le> rat_of_nat n" by (simp only: of_nat_le_iff)
  then have low: "1 / 3600 \<le> ?q" by simp
  from err have err': "\<bar>round_double ?q - ?q\<bar> \<le> 1 / 4096"
    by simp
  then have lo2: "?q - 1 / 4096 \<le> round_double ?q"
    and hi2: "round_double ?q \<le> ?q + 1 / 4096"
    by linarith+
  have nonneg: "0 \<le> round_double ?q"
    using lo2 low by linarith
  have upper: "round_double ?q < 2 ^ 42 + 1"
    using hi2 small by linarith
  then have "round_double ?q < 10 ^ 21" by simp
  moreover from upper have "round_double ?q < 2 ^ 1024" by simp
  ultimately show ?thesis
    using nonneg err by (simp add: to_double_def Let_def)
qed

lemma digits_nonempty: "digits n \<noteq> []"
  by (cases "n < 10") (simp_all add: digits_small digits_large)

lemma digit_char_0: "digit_char 0 = CHR ''0''"
  by (simp add: digit_char_def)

lemma fixed_point_string:
  "(let m = digits n;
        m' = (if length m \<le> 2 then replicate (3 - length m) (CHR ''0'') @ m else m);
        k = length m'
    in take (k - 2) m' @ ''.'' @ drop (k - 2) m') = two_decimals n"
proof -
  consider "n < 10" | "10 \<le> n" "n < 100" | "100 \<le> n" by linarith
  then show ?thesis
  proof cases
    case 1
    then show ?thesis
      by (simp add: digits_small two_decimals_def digit_char_0 numeral_2_eq_2)
  next
    case 2
    then have "n div 10 < 10" by simp
    with 2 show ?thesis
      by (simp add: digits_large digits_small two_decimals_def digit_char_0)
  next
    case 3
    then have a: "10 \<le> n" "10 \<le> n div 10" by simp_all
    have h: "n div 10 div 10 = n div 100"
      by (simp add: div_mult2_eq [symmetric])
    have d: "digits n = digits (n div 100) @ [digit_char (n div 10 mod 10), digit_char (n mod 10)]"
      using a by (simp add: digits_large [of n] digits_large [of "n div 10"] h)
    have "length (digits (n div 100)) \<noteq> 0"
      using digits_nonempty by simp
    then show ?thesis
      by (simp add: d two_decimals_def Let_def)
  qed
qed

lemma toFixed_2_nonneg:
  assumes "0 \<le> r" "r < 10 ^ 21"
  shows "toFixed_2 rt (Finite r) = two_decimals (nat \<lfloor>r * 100 + 1 / 2\<rfloor>)"
proof -
  from assms have "\<not> r < 0" "\<not> 10 ^ 21 \<le> \<bar>r\<bar>" "\<bar>r\<bar> = r" by simp_all
  then have "toFixed_2 rt (Finite r) =
    (let m = digits (nat \<lfloor>r * 100 + 1 / 2\<rfloor>);
        m' = (if length m \<le> 2 then replicate (3 - length m) (CHR ''0'') @ m else m);
        k = length m'
    in take (k - 2) m' @ ''.'' @ drop (k - 2) m')"
    by (simp add: toFixed_2_def Let_def)
  then show ?thesis
    by (simp only: fixed_point_string)
qed

lemma nearest_hundredth:
  assumes "\<bar>r - rat_of_nat n / 3600\<bar> \<le> 1 / 2 ^ 12" "0 \<le> r"
  shows "\<bar>rat_of_nat (nat \<lfloor>r * 100 + 1 / 2\<rfloor>) / 100 - rat_of_nat n / 3600\<bar> \<le> 1 / 200"
proof -
  define z where "z = \<lfloor>r * 100 + 1 / 2\<rfloor>"
  have z0: "0 \<le> z" using assms(2) by (simp add: z_def)
  have zl: "rat_of_int z \<le> r * 100 + 1 / 2" and zu: "r * 100 + 1 / 2 < rat_of_int z + 1"
    unfolding z_def by linarith+
  from assms(1) have e: "\<bar>r - rat_of_nat n / 3600\<bar> \<le> 1 / 4096" by simp
  then have rl: "rat_of_nat n / 3600 - 1 / 4096 \<le> r" and ru: "r \<le> rat_of_nat n / 3600 + 1 / 4096"
    by linarith+
  have "rat_of_int (36 * z) < rat_of_int (int n + 19)"
    using zl ru by simp
  then have "36 * z < int n + 19" by (simp only: of_int_less_iff)
  then have up: "36 * z \<le> int n + 18" by simp
  have "rat_of_int (int n) < rat_of_int (36 * z + 19)"
    using zu rl by simp
  then have "int n < 36 * z + 19" by (simp only: of_int_less_iff)
  then have lo: "int n \<le> 36 * z + 18" by simp
  from up have "rat_of_int (36 * z) \<le> rat_of_int (int n + 18)" by (simp only: of_int_le_iff)
  then have up': "36 * rat_of_int z \<le> rat_of_nat n + 18" by simp
  from lo have "rat_of_int (int n) \<le> rat_of_int (36 * z + 18)" by (simp only: of_int_le_iff)
  then have lo': "rat_of_nat n \<le> 36 * rat_of_int z + 18" by simp
  have "rat_of_nat (nat z) = rat_of_int z"
    using z0 by simp
  then have "\<bar>rat_of_nat (nat z) / 100 - rat_of_nat n / 3600\<bar> \<le> 1 / 200"
    using up' lo' by (simp add: abs_le_iff field_simps)
  then show ?thesis by (simp only: z_def)
qed

text \<open>
  Claim C8. For a worklog whose time spent is a whole number of seconds \<open>n\<close> below
  \<open>2^53\<close>, the field \<^verbatim>\<open>timeSpentHours\<close> is the numeral, with two fraction digits, of a
  hundredth nearest to \<open>n / 3600\<close>: it is \<open>m / 100\<close> written out, with
  \<open>m / 100\<close> within half a hundredth of \<open>n / 3600\<close>. For 5400 seconds that is
  \<^verbatim>\<open>"1.50"\<close>.
\<close>

theorem timeSpentHours_two_decimals:
  assumes "\<not> nullish worklog"
    and "get_prop worklog ''timeSpentSeconds'' = JNum (rat_of_nat n)"
    and "n < 2 ^ 53"
  shows "\<exists>r m. transformWorklog rt worklog = Inr r \<and>
           timeSpentHours r = two_decimals m \<and>
           \<bar>rat_of_nat m / 100 - rat_of_nat n / 3600\<bar> \<le> 1 / 200"
proof -
  from divide_3600_seconds [OF assms(3)] obtain x where
    x: "divide_3600 (Finite (rat_of_nat n)) = Finite x" "0 \<le> x" "x < 10 ^ 21"
       "\<bar>x - rat_of_nat n / 3600\<bar> \<le> 1 / 2 ^ 12"
    by blast
  let ?m = "nat \<lfloor>x * 100 + 1 / 2\<rfloor>"
  from assms(1,2) obtain r where r: "transformWorklog rt worklog = Inr r"
    "timeSpentHours r = toFixed_2 rt (divide_3600 (Finite (rat_of_nat n)))"
    by (simp add: transformWorklog_def)
  from r(2) x(1) toFixed_2_nonneg [OF x(2,3), of rt]
  have "timeSpentHours r = two_decimals ?m" by simp
  with r(1) nearest_hundredth [OF x(4,2)] show ?thesis by blast
qed

lemma two_decimals_150: "two_decimals 150 = ''1.50''"
  by (simp add: two_decimals_def digits_small digit_char_def)

theorem timeSpentHours_two_decimals_witness:
  "\<forall>rt. \<exists>r. transformWorklog rt login_worklog = Inr r \<and> timeSpentSeconds r = JNum 5400 \<and>
           timeSpentHours r = ''1.50''"
proof
  fix rt
  have a: "\<not> nullish login_worklog"
    by (simp add: login_worklog_def)
  have b: "get_prop login_worklog ''timeSpentSeconds'' = JNum (rat_of_nat 5400)"
    by (simp add: login_worklog_def)
  have c: "(5400::nat) < 2 ^ 53" by simp
  from timeSpentHours_two_decimals [OF a b c, of rt] obtain r m where
    r: "transformWorklog rt login_worklog = Inr r" "timeSpentHours r = two_decimals m"
       "\<bar>rat_of_nat m / 100 - rat_of_nat 5400 / 3600\<bar> \<le> 1 / 200"
    by blast
  from r(3) have "\<bar>rat_of_nat m / 100 - 3 / 2\<bar> \<le> 1 / 200" by simp
  then have "rat_of_nat m < 151" "149 < rat_of_nat m"
    by linarith+
  then have "rat_of_nat m < rat_of_nat 151" "rat_of_nat 149 < rat_of_nat m"
    by simp_all
  then have "m < 151" "149 < m" by (simp_all only: of_nat_less_iff)
  then have "m = 150" by simp
  with r(2) have "timeSpentHours r = ''1.50''" by (simp add: two_decimals_150)
  moreover from r(1) b have "timeSpentSeconds r = JNum 5400"
    by (simp add: transformWorklog_fields(9))
  ultimately show "\<exists>r. transformWorklog rt login_worklog = Inr r \<and> timeSpentSeconds r = JNum 5400 \<and>
           timeSpentHours r = ''1.50''"
    using r(1) by blast
qed

text \<open>
  Where \<open>n / 3600\<close> lies exactly between two hundredths, both are nearest, and the
  binary value of the quotient decides: 54 seconds are \<open>0.015\<close> hours, stored just
  below, and print as \<^verbatim>\<open>"0.01"\<close>; 18 seconds are \<open>0.005\<close> hours, stored just above,
  and print as \<^verbatim>\<open>"0.01"\<close> too.
\<close>

lemma binary_54: "divide_3600 (Finite 54) = Finite (1080863910568919 / 72057594037927936)"
  by code_simp

lemma binary_18: "divide_3600 (Finite 18) = Finite (5764607523034235 / 1152921504606846976)"
  by code_simp

lemma half_hundredths:
  "toFixed_2 rt (divide_3600 (Finite 54)) = ''0.01''"
  "toFixed_2 rt (divide_3600 (Finite 18)) = ''0.01''"
proof -
  let ?a = "1080863910568919 / 72057594037927936 :: rat"
  let ?b = "5764607523034235 / 1152921504606846976 :: rat"
  have "\<lfloor>?a * 100 + 1 / 2\<rfloor> = 1"
    by (rule floor_unique) simp_all
  then have f1: "nat \<lfloor>?a * 100 + 1 / 2\<rfloor> = 1"
    by (simp only: nat_1 One_nat_def)
  have "\<lfloor>?b * 100 + 1 / 2\<rfloor> = 1"
    by (rule floor_unique) simp_all
  then have f2: "nat \<lfloor>?b * 100 + 1 / 2\<rfloor> = 1"
    by (simp only: nat_1 One_nat_def)
  have t: "two_decimals 1 = ''0.01''"
    by (simp add: two_decimals_def digits_small digit_char_def)
  have p1: "toFixed_2 rt (Finite ?a) = two_decimals (nat \<lfloor>?a * 100 + 1 / 2\<rfloor>)"
    by (rule toFixed_2_nonneg) simp_all
  have p2: "toFixed_2 rt (Finite ?b) = two_decimals (nat \<lfloor>?b * 100 + 1 / 2\<rfloor>)"
    by (rule toFixed_2_nonneg) simp_all
  show "toFixed_2 rt (divide_3600 (Finite 54)) = ''0.01''"
    by (simp only: binary_54 p1 f1 t)
  show "toFixed_2 rt (divide_3600 (Finite 18)) = ''0.01''"
    by (simp only: binary_18 p2 f2 t)
qed

section \<open>The enricher\<close>

lemma map_of_set_prop: "map_of (set_prop ps k v) k' = (if k' = k then Some v else map_of ps k')"
  by (induction ps) auto

lemma set_prop_same: "map_of ps k = Some v \<Longrightarrow> set_prop ps k v = ps"
  by (induction ps) (auto split: if_splits)

lemma get_prop_set_prop:
  "get_prop (JObj (set_prop ps k v)) k' = (if k' = k then v else get_prop (JObj ps) k')"
  by (simp add: map_of_set_prop)

text \<open>What assign_issue does to reads.\<close>

lemma get_prop_assign_issue_other:
  "k \<noteq> ''issue'' \<Longrightarrow> get_prop (assign_issue w key s) k = get_prop w k"
  by (auto simp: assign_issue_def map_of_set_prop split: jsval.splits option.splits)

lemma issue_of_assign_issue:
  "k \<noteq> ''key'' \<Longrightarrow> k \<noteq> ''summary'' \<Longrightarrow>
   opt_member (get_prop (assign_issue w key s) ''issue'') k = opt_member (get_prop w ''issue'') k"
  by (auto simp: assign_issue_def opt_member_def map_of_set_prop split: jsval.splits option.splits)

lemma nullish_assign_issue: "nullish (assign_issue w key s) = nullish w"
  by (auto simp: assign_issue_def split: jsval.splits option.splits)

lemma issue_id_assign_issue: "issue_id (assign_issue w key s) = issue_id w"
  using issue_of_assign_issue [of "''id''" w key s]
  by (simp add: issue_id_def get_member_def nullish_assign_issue)

lemma assign_issue_idem: "assign_issue (assign_issue w key s) key s = assign_issue w key s"
  by (auto simp: assign_issue_def map_of_set_prop set_prop_same split: jsval.splits option.splits)

lemma enrich_worklog_cases:
  assumes "enrich_worklog rt m w = Inr w'"
  obtains "w' = w"
  | i k where "issue_id w = Inr i" "truthy i" "to_string rt i = Inr k" "slot_truthy (lookup m k)"
      "w' = assign_issue w (slot_prop (lookup m k) ''key'') (slot_prop (lookup m k) ''summary'')"
proof (cases "issue_id w")
  case (Inl e)
  with assms show ?thesis by (simp add: enrich_worklog_def)
next
  case (Inr i)
  show ?thesis
  proof (cases "truthy i")
    case False
    with assms Inr that(1) show ?thesis by (simp add: enrich_worklog_def)
  next
    case True
    show ?thesis
    proof (cases "to_string rt i")
      case (Inl e)
      with assms Inr True show ?thesis by (simp add: enrich_worklog_def)
    next
      case k: (Inr k)
      show ?thesis
      proof (cases "slot_truthy (lookup m k)")
        case False
        with assms Inr True k that(1) show ?thesis by (simp add: enrich_worklog_def)
      next
        case st: True
        with assms Inr True k have
          "w' = assign_issue w (slot_prop (lookup m k) ''key'') (slot_prop (lookup m k) ''summary'')"
          by (simp add: enrich_worklog_def)
        with Inr True k st that(2) show ?thesis by blast
      qed
    qed
  qed
qed

lemma enrich_worklog_issue_id:
  assumes "enrich_worklog rt m w = Inr w'"
  shows "issue_id w' = issue_id w"
  using assms by (rule enrich_worklog_cases) (simp_all add: issue_id_assign_issue)

lemma enrich_worklog_idem:
  assumes "enrich_worklog rt m w = Inr w'"
  shows "enrich_worklog rt m w' = Inr w'"
  using assms
proof (rule enrich_worklog_cases)
  assume "w' = w"
  with assms show ?thesis by simp
next
  fix i k
  assume h: "issue_id w = Inr i" "truthy i" "to_string rt i = Inr k" "slot_truthy (lookup m k)"
    "w' = assign_issue w (slot_prop (lookup m k) ''key'') (slot_prop (lookup m k) ''summary'')"
  then have "issue_id w' = Inr i"
    by (simp add: issue_id_assign_issue)
  with h show ?thesis
    by (simp add: enrich_worklog_def assign_issue_idem)
qed

lemma enrich_worklogs_idem:
  "enrich_worklogs rt m ws = (r, ws') \<Longrightarrow> enrich_worklogs rt m ws' = (r, ws')"
proof (induction ws arbitrary: r ws')
  case Nil
  then show ?case by simp
next
  case (Cons w ws)
  show ?case
  proof (cases "enrich_worklog rt m w")
    case (Inl e)
    with Cons.prems show ?thesis by auto
  next
    case (Inr w1)
    obtain r1 ws1 where rest: "enrich_worklogs rt m ws = (r1, ws1)"
      by (cases "enrich_worklogs rt m ws")
    with Cons.prems Inr have eq: "r = r1" "ws' = w1 # ws1" by auto
    from Cons.IH [OF rest] enrich_worklog_idem [OF Inr] show ?thesis
      by (simp add: eq)
  qed
qed

lemma enrich_worklogs_issue_ids:
  "enrich_worklogs rt m ws = (r, ws') \<Longrightarrow> map issue_id ws' = map issue_id ws"
proof (induction ws arbitrary: r ws')
  case Nil
  then show ?case by simp
next
  case (Cons w ws)
  show ?case
  proof (cases "enrich_worklog rt m w")
    case (Inl e)
    with Cons.prems show ?thesis by auto
  next
    case (Inr w1)
    obtain r1 ws1 where rest: "enrich_worklogs rt m ws = (r1, ws1)"
      by (cases "enrich_worklogs rt m ws")
    with Cons.prems Inr have eq: "r = r1" "ws' = w1 # ws1" by auto
    from Cons.IH [OF rest] enrich_worklog_issue_id [OF Inr] show ?thesis
      by (simp add: eq)
  qed
qed

lemma try_enrich_idem:
  "try_enrich rt net jql n ws = (r, ws') \<Longrightarrow> try_enrich rt net jql n ws' = (r, ws')"
  by (auto simp: try_enrich_def enrich_worklogs_idem split: sum.splits)

lemma try_enrich_issue_ids:
  "try_enrich rt net jql n ws = (r, ws') \<Longrightarrow> map issue_id ws' = map issue_id ws"
  by (auto simp: try_enrich_def enrich_worklogs_issue_ids split: sum.splits)

lemma enrichWithIssueKeys_ids_throw:
  "issueIds ws = Inl e \<Longrightarrow> enrichWithIssueKeys rt net ws tr = (Inl e, tr)"
  by (simp add: enrichWithIssueKeys_def)

lemma enrichWithIssueKeys_no_ids:
  "issueIds ws = Inr [] \<Longrightarrow> enrichWithIssueKeys rt net ws tr = (Inr ws, tr)"
  by (simp add: enrichWithIssueKeys_def)

lemma enrichWithIssueKeys_join_throw:
  "issueIds ws = Inr ids \<Longrightarrow> ids \<noteq> [] \<Longrightarrow> collect (map (to_string rt) ids) = Inl e \<Longrightarrow>
   enrichWithIssueKeys rt net ws tr = (Inl e, tr)"
  by (simp add: enrichWithIssueKeys_def)

lemma enrichWithIssueKeys_called:
  "issueIds ws = Inr ids \<Longrightarrow> ids \<noteq> [] \<Longrightarrow> collect (map (to_string rt) ids) = Inr ss \<Longrightarrow>
   try_enrich rt net (jql_text ss) (length ids) ws = (caught, ws1) \<Longrightarrow>
   enrichWithIssueKeys rt net ws tr =
     (Inr ws1, tr @ [JiraPost (jql_text ss) (length ids)] @ catch_block caught)"
  by (simp add: enrichWithIssueKeys_def)


lemma enrichWithIssueKeys_Inr:
  assumes "enrichWithIssueKeys rt net ws tr = (Inr ws', tr')"
  shows "(issueIds ws = Inr [] \<and> ws' = ws \<and> tr' = tr) \<or>
         (\<exists>ids ss caught. issueIds ws = Inr ids \<and> ids \<noteq> [] \<and>
            collect (map (to_string rt) ids) = Inr ss \<and>
            try_enrich rt net (jql_text ss) (length ids) ws = (caught, ws') \<and>
            tr' = tr @ [JiraPost (jql_text ss) (length ids)] @ catch_block caught)"
proof (cases "issueIds ws")
  case (Inl e)
  from enrichWithIssueKeys_ids_throw [OF Inl, of rt net tr] assms show ?thesis by simp
next
  case (Inr ids)
  show ?thesis
  proof (cases "ids = []")
    case True
    with Inr have "issueIds ws = Inr []" by simp
    from enrichWithIssueKeys_no_ids [OF this, of rt net tr] assms this show ?thesis by simp
  next
    case False
    show ?thesis
    proof (cases "collect (map (to_string rt) ids)")
      case (Inl e)
      from enrichWithIssueKeys_join_throw [OF Inr False Inl, of net tr] assms show ?thesis by simp
    next
      case ss: (Inr ss)
      obtain caught ws1 where t: "try_enrich rt net (jql_text ss) (length ids) ws = (caught, ws1)"
        by (cases "try_enrich rt net (jql_text ss) (length ids) ws")
      from enrichWithIssueKeys_called [OF Inr False ss t, of tr] assms
      have "ws' = ws1" "tr' = tr @ [JiraPost (jql_text ss) (length ids)] @ catch_block caught"
        by simp_all
      with Inr False ss t show ?thesis by blast
    qed
  qed
qed

text \<open>
  Claim C6. Enrichment is idempotent: when a run of \<^verbatim>\<open>enrichWithIssueKeys\<close> has
  returned, a second run against the same services returns the collection as the first
  run left it. Every worklog keeps the issue key and summary the first run gave it, and
  no other field changes.
\<close>

theorem enrichWithIssueKeys_idempotent:
  assumes "enrichWithIssueKeys rt net worklogs trace = (Inr worklogs', trace')"
  shows "fst (enrichWithIssueKeys rt net worklogs' trace'') = Inr worklogs'"
proof -
  from enrichWithIssueKeys_Inr [OF assms] consider
    "issueIds worklogs = Inr []" "worklogs' = worklogs"
  | ids ss caught where "issueIds worklogs = Inr ids" "ids \<noteq> []"
      "collect (map (to_string rt) ids) = Inr ss"
      "try_enrich rt net (jql_text ss) (length ids) worklogs = (caught, worklogs')"
    by blast
  then show ?thesis
  proof cases
    case 1
    then show ?thesis by (simp add: enrichWithIssueKeys_no_ids)
  next
    case 2
    have "map issue_id worklogs' = map issue_id worklogs"
      using try_enrich_issue_ids [OF 2(4)] .
    then have "issueIds worklogs' = Inr ids"
      using 2(1) by (simp add: issueIds_def)
    from enrichWithIssueKeys_called [OF this 2(2,3) try_enrich_idem [OF 2(4)]] show ?thesis
      by simp
  qed
qed

text \<open>
  What enrichment leaves alone: every property of a worklog but \<^verbatim>\<open>issue\<close>, every property
  of the issue but \<^verbatim>\<open>key\<close> and \<^verbatim>\<open>summary\<close>, and the whole worklog when it has no
  truthy identifier or when the read of \<^verbatim>\<open>issueMap\<close> finds nothing. The read finds the
  entries of the answer, and, the map being an ordinary object, what it inherits.
\<close>

lemma enrich_worklog_frame:
  assumes "enrich_worklog rt m w = Inr w'"
  shows "(\<forall>k. k \<noteq> ''issue'' \<longrightarrow> get_prop w' k = get_prop w k) \<and>
         (\<forall>k. k \<noteq> ''key'' \<and> k \<noteq> ''summary'' \<longrightarrow>
              opt_member (get_prop w' ''issue'') k = opt_member (get_prop w ''issue'') k)"
  using assms
  by (rule enrich_worklog_cases) (simp_all add: get_prop_assign_issue_other issue_of_assign_issue)

lemma enrich_worklog_no_identifier:
  "issue_id w = Inr i \<Longrightarrow> \<not> truthy i \<Longrightarrow> enrich_worklog rt m w = Inr w"
  by (simp add: enrich_worklog_def)

lemma enrich_worklog_no_match:
  "issue_id w = Inr i \<Longrightarrow> to_string rt i = Inr k \<Longrightarrow> lookup m k = Absent \<Longrightarrow>
   enrich_worklog rt m w = Inr w"
  by (simp add: enrich_worklog_def)

lemma lookup_not_inherited:
  assumes "proto m = None" "k \<notin> set object_prototype_names" "k \<noteq> ''__proto__''"
  shows "lookup m k = (case map_of (own m) k of Some v \<Rightarrow> Value v | None \<Rightarrow> Absent)"
  using assms by (simp add: lookup_def split: option.splits)

section \<open>The page loop\<close>

lemma hasMore_reports_next:
  "truthy (js_and (get_prop data ''metadata'') (get_prop (get_prop data ''metadata'') ''next''))
     = reports_next data"
  by (cases "get_prop data ''metadata''") (auto simp: js_and_def reports_next_def opt_member_def)

lemma read_page_array:
  assumes "get_prop data ''results'' = JArr rs"
  shows "\<exists>hasMore. read_page rt (Inr data) = Inr (rs, hasMore) \<and> truthy hasMore = reports_next data"
proof -
  from assms have "\<not> nullish data" by (cases data) auto
  with assms show ?thesis
    by (simp add: read_page_def hasMore_reports_next)
qed

lemma fetch_pages_run:
  assumes "\<And>i. j \<le> i \<Longrightarrow> i \<le> n \<Longrightarrow> tempo_get net s e (i * limit) limit = Inr (page i)"
    and "\<And>i. j \<le> i \<Longrightarrow> i \<le> n \<Longrightarrow> get_prop (page i) ''results'' = JArr (results i)"
    and "\<And>i. j \<le> i \<Longrightarrow> i < n \<Longrightarrow> reports_next (page i)"
    and "\<not> reports_next (page n)"
    and "j \<le> n"
  shows "fetch_pages rt net s e (j * limit) acc tr =
           Some (Inr (acc @ concat (map results [j..<Suc n])),
                 tr @ map (\<lambda>i. TempoGet s e (i * limit) limit) [j..<Suc n])"
  using assms
proof (induction "n - j" arbitrary: j acc tr)
  case 0
  then have j: "j = n" by simp
  from 0 j obtain hasMore where
    "read_page rt (tempo_get net s e (n * limit) limit) = Inr (results n, hasMore)"
    "\<not> truthy hasMore"
    using read_page_array [of "page n" "results n" rt] by auto
  then show ?case
    by (subst fetch_pages.simps) (simp add: j)
next
  case (Suc d)
  then have lt: "j < n" and d: "d = n - Suc j" by simp_all
  from Suc.prems lt obtain hasMore where
    rp: "read_page rt (tempo_get net s e (j * limit) limit) = Inr (results j, hasMore)"
    "truthy hasMore"
    using read_page_array [of "page j" "results j" rt] by (metis le_refl less_imp_le)
  have IH: "fetch_pages rt net s e (Suc j * limit) (acc @ results j)
              (tr @ [TempoGet s e (j * limit) limit]) =
           Some (Inr ((acc @ results j) @ concat (map results [Suc j..<Suc n])),
                 (tr @ [TempoGet s e (j * limit) limit]) @
                 map (\<lambda>i. TempoGet s e (i * limit) limit) [Suc j..<Suc n])"
    using Suc.hyps(1) [OF d] Suc.prems lt by (simp add: Suc_le_eq del: upt_Suc)
  have upt: "[j..<Suc n] = j # [Suc j..<Suc n]"
    using lt by (simp add: upt_conv_Cons del: upt_Suc)
  from IH show ?case
    by (subst fetch_pages.simps) (simp add: rp upt add.commute del: upt_Suc)
qed

lemma fetch_pages_fail:
  assumes "\<And>i. j \<le> i \<Longrightarrow> i < n \<Longrightarrow> tempo_get net s e (i * limit) limit = Inr (page i)"
    and "\<And>i. j \<le> i \<Longrightarrow> i < n \<Longrightarrow> get_prop (page i) ''results'' = JArr (results i)"
    and "\<And>i. j \<le> i \<Longrightarrow> i < n \<Longrightarrow> reports_next (page i)"
    and "tempo_get net s e (n * limit) limit = Inl err"
    and "j \<le> n"
  shows "fetch_pages rt net s e (j * limit) acc tr =
           Some (Inl err, tr @ map (\<lambda>i. TempoGet s e (i * limit) limit) [j..<Suc n])"
  using assms
proof (induction "n - j" arbitrary: j acc tr)
  case 0
  then have j: "j = n" by simp
  from 0 j have "read_page rt (tempo_get net s e (n * limit) limit) = Inl err"
    by (simp add: read_page_def)
  then show ?case
    by (subst fetch_pages.simps) (simp add: j)
next
  case (Suc d)
  then have lt: "j < n" and d: "d = n - Suc j" by simp_all
  from Suc.prems lt obtain hasMore where
    rp: "read_page rt (tempo_get net s e (j * limit) limit) = Inr (results j, hasMore)"
    "truthy hasMore"
    using read_page_array [of "page j" "results j" rt] by (metis le_refl)
  have IH: "fetch_pages rt net s e (Suc j * limit) (acc @ results j)
              (tr @ [TempoGet s e (j * limit) limit]) =
           Some (Inl err,
                 (tr @ [TempoGet s e (j * limit) limit]) @
                 map (\<lambda>i. TempoGet s e (i * limit) limit) [Suc j..<Suc n])"
    using Suc.hyps(1) [OF d] Suc.prems lt by (simp add: Suc_le_eq del: upt_Suc)
  have upt: "[j..<Suc n] = j # [Suc j..<Suc n]"
    using lt by (simp add: upt_conv_Cons del: upt_Suc)
  from IH show ?case
    by (subst fetch_pages.simps) (simp add: rp upt add.commute del: upt_Suc)
qed

lemma concat_chunks_take:
  "concat (map (\<lambda>i. take k (drop (i * k) xs)) [0..<m]) = take (m * k) xs"
proof (induction m)
  case 0
  then show ?case by simp
next
  case (Suc m)
  have "take (m * k + k) xs = take (m * k) xs @ take k (drop (m * k) xs)"
    by (rule take_add)
  with Suc show ?case by (simp add: add.commute)
qed

lemma concat_chunks:
  assumes "0 < k"
  shows "concat (map (\<lambda>i. take k (drop (i * k) xs)) [0..<Suc (length xs div k)]) = xs"
proof -
  have "length xs < Suc (length xs div k) * k"
    using assms by (metis dividend_less_div_times mult.commute mult_Suc_right add.commute)
  then show ?thesis
    unfolding concat_chunks_take by simp
qed

lemma full_chunk:
  assumes "i < length xs div k"
  shows "length (take k (drop (i * k) xs)) = k"
proof -
  from assms have "Suc i \<le> length xs div k" by simp
  then have "Suc i * k \<le> (length xs div k) * k" by (rule mult_le_mono1)
  also have "\<dots> \<le> length xs" by simp
  finally have "i * k + k \<le> length xs" by simp
  then show ?thesis by simp
qed

lemma last_chunk:
  assumes "0 < k"
  shows "length (take k (drop ((length xs div k) * k) xs)) \<noteq> k"
proof -
  have "length xs - (length xs div k) * k = length xs mod k"
    by (simp add: minus_div_mult_eq_mod)
  moreover have "length xs mod k < k" using assms by simp
  ultimately show ?thesis by simp
qed

lemma ceiling_pages: "int (n div 50 + 1) = \<lceil>(rat_of_nat n + 1) / 50\<rceil>"
proof -
  have a: "rat_of_nat n = rat_of_nat (50 * (n div 50) + n mod 50)"
    by simp
  have b: "n mod 50 < 50" by simp
  have lo: "rat_of_int (int (n div 50 + 1)) - 1 < (rat_of_nat n + 1) / 50"
  proof -
    have "50 * rat_of_nat (n div 50) < rat_of_nat n + 1"
      unfolding a by (simp del: of_nat_add of_nat_mult add: of_nat_add of_nat_mult)
    then show ?thesis by simp
  qed
  have hi: "(rat_of_nat n + 1) / 50 \<le> rat_of_int (int (n div 50 + 1))"
  proof -
    have "n mod 50 + 1 \<le> 50" using b by simp
    then have "rat_of_nat (n mod 50 + 1) \<le> rat_of_nat 50"
      by (simp only: of_nat_le_iff)
    then have "rat_of_nat (n mod 50) + 1 \<le> 50" by simp
    then have "rat_of_nat n + 1 \<le> 50 * rat_of_nat (n div 50) + 50"
      unfolding a by (simp del: of_nat_add of_nat_mult add: of_nat_add of_nat_mult)
    then show ?thesis by simp
  qed
  have "\<lceil>(rat_of_nat n + 1) / 50\<rceil> = int (n div 50 + 1)"
    using lo hi by (rule ceiling_unique)
  then show ?thesis by simp
qed

lemma fetch_pages_first_unmarked:
  assumes "\<forall>i \<le> n. tempo_get net s e (i * limit) limit = Inr (page i) \<and>
                   get_prop (page i) ''results'' = JArr (results i)"
    and "\<forall>i < n. reports_next (page i)"
    and "\<not> reports_next (page n)"
  shows "fetch_pages rt net s e 0 [] [] =
           Some (Inr (concat (map results [0..<Suc n])),
                 map (\<lambda>i. TempoGet s e (i * limit) limit) [0..<Suc n])"
proof -
  have "fetch_pages rt net s e (0 * limit) [] [] =
          Some (Inr ([] @ concat (map results [0..<Suc n])),
                [] @ map (\<lambda>i. TempoGet s e (i * limit) limit) [0..<Suc n])"
    using assms by (intro fetch_pages_run) auto
  then show ?thesis by simp
qed

lemma filter_tempo_calls:
  "filter is_tempo_get (map (\<lambda>i. TempoGet s e (i * k) k) xs) = map (\<lambda>i. TempoGet s e (i * k) k) xs"
  by (induction xs) auto

lemma fetch_pages_full_pages:
  assumes "\<forall>offset. tempo_get net s e offset limit = Inr (data offset) \<and>
             get_prop (data offset) ''results'' = JArr (take limit (drop offset records)) \<and>
             reports_next (data offset) = (length (take limit (drop offset records)) = limit)"
  shows "fetch_pages rt net s e 0 [] [] =
           Some (Inr records,
                 map (\<lambda>i. TempoGet s e (i * limit) limit) [0..<Suc (length records div limit)])"
proof -
  let ?n = "length records div limit"
  let ?page = "\<lambda>i. data (i * limit)"
  let ?results = "\<lambda>i. take limit (drop (i * limit) records)"
  have pos: "0 < limit" by (simp add: limit_def)
  have 1: "\<forall>i \<le> ?n. tempo_get net s e (i * limit) limit = Inr (?page i) \<and>
                   get_prop (?page i) ''results'' = JArr (?results i)"
    using assms by simp
  have 2: "\<forall>i < ?n. reports_next (?page i)"
    using assms full_chunk [of _ records limit] by simp
  have 3: "\<not> reports_next (?page ?n)"
    using assms last_chunk [OF pos, of records] by simp
  from fetch_pages_first_unmarked [OF 1 2 3, of rt] concat_chunks [OF pos, of records]
  show ?thesis by (simp del: upt_Suc)
qed

text \<open>
  Claim C2, as the code has it. The loop stops at the first response that reports no next
  page: when the responses at offsets \<open>0, 50, \<dots>\<close> report one \<open>n\<close> times and then not,
  the loop returns after exactly \<open>n + 1\<close> calls; with \<open>n = 0\<close> that is one call,
  also on an empty result. How many calls \<open>N\<close> records take is therefore the
  service's choice of when to report. Against a service that sends the window asked for
  and reports a next page exactly when the page it sends is full, the loop returns all
  \<open>N\<close> records after exactly \<open>\<lceil>(N + 1) / 50\<rceil>\<close> calls.
\<close>

theorem fetch_pages_calls:
  "((\<forall>i \<le> n. tempo_get net s e (i * limit) limit = Inr (page i) \<and>
              get_prop (page i) ''results'' = JArr (results i)) \<and>
    (\<forall>i < n. reports_next (page i)) \<and> \<not> reports_next (page n) \<longrightarrow>
    (\<exists>all trace. fetch_pages rt net s e 0 [] [] = Some (Inr all, trace) \<and>
       length (filter is_tempo_get trace) = n + 1)) \<and>
   ((\<forall>offset. tempo_get net s e offset limit = Inr (data offset) \<and>
        get_prop (data offset) ''results'' = JArr (take limit (drop offset records)) \<and>
        reports_next (data offset) = (length (take limit (drop offset records)) = limit)) \<longrightarrow>
    (\<exists>trace. fetch_pages rt net s e 0 [] [] = Some (Inr records, trace) \<and>
       int (length (filter is_tempo_get trace)) = \<lceil>(rat_of_nat (length records) + 1) / 50\<rceil>))"
proof (intro conjI impI)
  assume "(\<forall>i \<le> n. tempo_get net s e (i * limit) limit = Inr (page i) \<and>
              get_prop (page i) ''results'' = JArr (results i)) \<and>
    (\<forall>i < n. reports_next (page i)) \<and> \<not> reports_next (page n)"
  then have h: "\<forall>i \<le> n. tempo_get net s e (i * limit) limit = Inr (page i) \<and>
              get_prop (page i) ''results'' = JArr (results i)"
    "\<forall>i < n. reports_next (page i)" "\<not> reports_next (page n)"
    by blast+
  have "fetch_pages rt net s e 0 [] [] =
           Some (Inr (concat (map results [0..<Suc n])),
                 map (\<lambda>i. TempoGet s e (i * limit) limit) [0..<Suc n])"
    by (rule fetch_pages_first_unmarked [OF h])
  moreover have "length (filter is_tempo_get (map (\<lambda>i. TempoGet s e (i * limit) limit) [0..<Suc n])) = n + 1"
    by (simp add: filter_tempo_calls del: upt_Suc)
  ultimately show "\<exists>all trace. fetch_pages rt net s e 0 [] [] = Some (Inr all, trace) \<and>
       length (filter is_tempo_get trace) = n + 1"
    by blast
next
  assume "\<forall>offset. tempo_get net s e offset limit = Inr (data offset) \<and>
        get_prop (data offset) ''results'' = JArr (take limit (drop offset records)) \<and>
        reports_next (data offset) = (length (take limit (drop offset records)) = limit)"
  then have "fetch_pages rt net s e 0 [] [] =
           Some (Inr records,
                 map (\<lambda>i. TempoGet s e (i * limit) limit) [0..<Suc (length records div limit)])"
    by (rule fetch_pages_full_pages)
  moreover have "int (length (filter is_tempo_get
       (map (\<lambda>i. TempoGet s e (i * limit) limit) [0..<Suc (length records div limit)]))) =
     \<lceil>(rat_of_nat (length records) + 1) / 50\<rceil>"
    using ceiling_pages [of "length records"]
    by (simp add: filter_tempo_calls limit_def del: upt_Suc)
  ultimately show "\<exists>trace. fetch_pages rt net s e 0 [] [] = Some (Inr records, trace) \<and>
       int (length (filter is_tempo_get trace)) = \<lceil>(rat_of_nat (length records) + 1) / 50\<rceil>"
    by blast
qed

section \<open>The pipeline\<close>

lemma set_new_Set_aux: "set (foldl set_add acc vs) \<subseteq> set acc \<union> set vs"
proof (induction vs arbitrary: acc)
  case Nil
  then show ?case by simp
next
  case (Cons v vs)
  have "set (set_add acc v) \<subseteq> set acc \<union> {v}"
    by (auto simp: set_add_def)
  with Cons [of "set_add acc v"] show ?case by auto
qed

lemma set_new_Set: "set (new_Set vs) \<subseteq> set vs"
  using set_new_Set_aux [of "[]" vs] by (simp add: new_Set_def)

lemma to_string_primitive: "primitive v \<Longrightarrow> \<exists>s. to_string rt v = Inr s"
  by (cases v) auto

lemma collect_Inr_exists:
  "(\<And>x. x \<in> set xs \<Longrightarrow> \<exists>y. f x = Inr y) \<Longrightarrow> \<exists>ys. collect (map f xs) = Inr ys \<and> length ys = length xs"
proof (induction xs)
  case Nil
  then show ?case by simp
next
  case (Cons x xs)
  then obtain y ys where "f x = Inr y" "collect (map f xs) = Inr ys" "length ys = length xs"
    by (meson list.set_intros)
  then show ?case by simp
qed

lemma collect_Inr_nth:
  "collect xs = Inr ys \<Longrightarrow> length ys = length xs \<and> (\<forall>i < length xs. xs ! i = Inr (ys ! i))"
proof (induction xs arbitrary: ys)
  case Nil
  then show ?case by simp
next
  case (Cons x xs)
  then obtain v vs where v: "x = Inr v" "collect xs = Inr vs" "ys = v # vs"
    by (cases x; cases "collect xs") auto
  from Cons.IH [OF v(2)] v show ?case
    by (auto simp: nth_Cons split: nat.splits)
qed

lemma issue_id_plain:
  assumes "plain_worklog w"
  shows "issue_id w = Inr (opt_member (get_prop w ''issue'') ''id'')"
proof -
  from assms have "\<not> nullish w"
    by (cases w) (auto simp: plain_worklog_def raw_worklog_def)
  then show ?thesis by (simp add: issue_id_def get_member_def)
qed

lemma issueIds_plain:
  assumes "\<forall>w \<in> set ws. plain_worklog w"
  shows "\<exists>ids. issueIds ws = Inr ids \<and> (\<forall>v \<in> set ids. primitive v)"
proof -
  let ?g = "\<lambda>w. opt_member (get_prop w ''issue'') ''id''"
  have "collect (map issue_id ws) = Inr (map ?g ws)"
    using assms by (intro collect_map_Inr) (simp add: issue_id_plain)
  then have ids: "issueIds ws = Inr (new_Set (filter truthy (map ?g ws)))"
    by (simp add: issueIds_def)
  have "\<forall>v \<in> set (new_Set (filter truthy (map ?g ws))). primitive v"
    using set_new_Set [of "filter truthy (map ?g ws)"] assms
    by (auto simp: plain_worklog_def)
  with ids show ?thesis by blast
qed

text \<open>On plain worklogs the enricher returns, whatever Jira does.\<close>

lemma enrichWithIssueKeys_returns:
  assumes "\<forall>w \<in> set ws. plain_worklog w"
  shows "\<exists>ws' tr'. enrichWithIssueKeys rt net ws tr = (Inr ws', tr')"
proof -
  from issueIds_plain [OF assms] obtain ids where
    ids: "issueIds ws = Inr ids" "\<forall>v \<in> set ids. primitive v" by blast
  show ?thesis
  proof (cases "ids = []")
    case True
    with ids enrichWithIssueKeys_no_ids show ?thesis by blast
  next
    case False
    from ids(2) obtain ss where ss: "collect (map (to_string rt) ids) = Inr ss"
      using collect_Inr_exists [of ids "to_string rt"] to_string_primitive by blast
    obtain caught ws1 where "try_enrich rt net (jql_text ss) (length ids) ws = (caught, ws1)"
      by (cases "try_enrich rt net (jql_text ss) (length ids) ws")
    from enrichWithIssueKeys_called [OF ids(1) False ss this] show ?thesis by blast
  qed
qed

lemma transformWorklog_same_reads:
  assumes "transformWorklog rt w = Inr r"
    and "nullish w' = nullish w"
    and "\<And>k. k \<noteq> ''issue'' \<Longrightarrow> get_prop w' k = get_prop w k"
    and "opt_member (get_prop w' ''issue'') ''id'' = opt_member (get_prop w ''issue'') ''id''"
  shows "transformWorklog rt w' =
           Inr (r\<lparr> issueKey := js_or (opt_member (get_prop w' ''issue'') ''key'') (JStr ''N/A''),
                  issueSummary := js_or (opt_member (get_prop w' ''issue'') ''summary'') JNull \<rparr>)"
proof -
  from assms(1) have nn: "\<not> nullish w"
    by (auto simp: transformWorklog_def split: if_splits)
  from assms(1) nn obtain n where n: "to_number rt (get_prop w ''timeSpentSeconds'') = Inr n"
    by (auto simp: transformWorklog_def split: sum.splits)
  from assms(1) nn n have r: "r =
         \<lparr> id' = get_prop w ''tempoWorklogId'',
           issueKey = js_or (opt_member (get_prop w ''issue'') ''key'') (JStr ''N/A''),
           issueId = js_or (opt_member (get_prop w ''issue'') ''id'') JNull,
           issueSummary = js_or (opt_member (get_prop w ''issue'') ''summary'') JNull,
           date = get_prop w ''startDate'',
           startTime = js_or (get_prop w ''startTime'') JNull,
           timeSpentSeconds = get_prop w ''timeSpentSeconds'',
           timeSpentHours = toFixed_2 rt (divide_3600 n),
           description = js_or (get_prop w ''description'') (JStr []),
           author =
             \<lparr> accountId = js_or (opt_member (get_prop w ''author'') ''accountId'') JNull,
               displayName =
                 js_or (opt_member (get_prop w ''author'') ''displayName'') (JStr ''Unknown'') \<rparr>,
           createdAt = get_prop w ''createdAt'',
           updatedAt = get_prop w ''updatedAt'' \<rparr>"
    by (simp add: transformWorklog_def)
  show ?thesis
    unfolding r using nn n assms(2,4)
    by (simp add: transformWorklog_def assms(3))
qed

lemma transformWorklog_enriched:
  assumes "enrich_worklog rt m w = Inr w'" and "transformWorklog rt w = Inr r"
  shows "\<exists>k s. transformWorklog rt w' = Inr (r\<lparr> issueKey := k, issueSummary := s \<rparr>)"
  using assms(1)
proof (rule enrich_worklog_cases)
  assume "w' = w"
  with assms(2) have "transformWorklog rt w' = Inr (r\<lparr> issueKey := issueKey r, issueSummary := issueSummary r \<rparr>)"
    by simp
  then show ?thesis by blast
next
  fix i k
  assume "w' = assign_issue w (slot_prop (lookup m k) ''key'') (slot_prop (lookup m k) ''summary'')"
  then have w': "w' = assign_issue w (slot_prop (lookup m k) ''key'') (slot_prop (lookup m k) ''summary'')" .
  have 1: "nullish w' = nullish w"
    by (simp add: w' nullish_assign_issue)
  have 2: "get_prop w' k = get_prop w k" if "k \<noteq> ''issue''" for k
    using that by (simp add: w' get_prop_assign_issue_other)
  have 3: "opt_member (get_prop w' ''issue'') ''id'' = opt_member (get_prop w ''issue'') ''id''"
    by (simp add: w' issue_of_assign_issue)
  from transformWorklog_same_reads [OF assms(2) 1 2 3] show ?thesis by blast
qed

lemma normalized_from_self: "transformWorklog rt w = Inr r \<Longrightarrow> normalized_from rt w r"
  by (simp add: normalized_from_def)

lemma normalized_from_update:
  "transformWorklog rt w = Inr r \<Longrightarrow> normalized_from rt w (r\<lparr> issueKey := k, issueSummary := s \<rparr>)"
  by (simp add: normalized_from_def)

lemma transformWorklogs_Cons:
  "transformWorklog rt w = Inr r \<Longrightarrow> transformWorklogs rt ws = Inr rs \<Longrightarrow>
   transformWorklogs rt (w # ws) = Inr (r # rs)"
  by (simp add: transformWorklogs_def)

lemma transformWorklogs_normalized:
  assumes "\<forall>w \<in> set ws. raw_worklog w"
  shows "\<exists>records. transformWorklogs rt ws = Inr records \<and> list_all2 (normalized_from rt) ws records"
  using assms
proof (induction ws)
  case Nil
  then show ?case by (simp add: transformWorklogs_def)
next
  case (Cons w ws)
  then obtain rs where rs: "transformWorklogs rt ws = Inr rs" "list_all2 (normalized_from rt) ws rs"
    by auto
  from Cons.prems obtain r where r: "transformWorklog rt w = Inr r"
    using transformWorklog_raw [of w rt] by auto
  from transformWorklogs_Cons [OF r rs(1)] normalized_from_self [OF r] rs(2) show ?case
    by auto
qed

lemma enrich_worklogs_normalized:
  assumes "enrich_worklogs rt m ws = (c, ws')" and "\<forall>w \<in> set ws. raw_worklog w"
  shows "\<exists>records. transformWorklogs rt ws' = Inr records \<and>
           list_all2 (normalized_from rt) ws records"
  using assms
proof (induction ws arbitrary: c ws')
  case Nil
  then show ?case by (simp add: transformWorklogs_def)
next
  case (Cons w ws)
  show ?case
  proof (cases "enrich_worklog rt m w")
    case (Inl e)
    with Cons.prems(1) have "ws' = w # ws" by simp
    with transformWorklogs_normalized [OF Cons.prems(2), of rt] show ?thesis by simp
  next
    case (Inr w1)
    obtain c1 ws1 where rest: "enrich_worklogs rt m ws = (c1, ws1)"
      by (cases "enrich_worklogs rt m ws")
    with Cons.prems(1) Inr have ws': "ws' = w1 # ws1" by simp
    from Cons.IH [OF rest] Cons.prems(2) obtain rs where
      rs: "transformWorklogs rt ws1 = Inr rs" "list_all2 (normalized_from rt) ws rs" by auto
    from Cons.prems(2) obtain r where r: "transformWorklog rt w = Inr r"
      using transformWorklog_raw [of w rt] by auto
    from transformWorklog_enriched [OF Inr r] obtain k s where
      r1: "transformWorklog rt w1 = Inr (r\<lparr> issueKey := k, issueSummary := s \<rparr>)" by blast
    from transformWorklogs_Cons [OF r1 rs(1)] normalized_from_update [OF r] rs(2) ws'
    show ?thesis by auto
  qed
qed

lemma try_enrich_normalized:
  assumes "try_enrich rt net jql k ws = (c, ws')" and "\<forall>w \<in> set ws. raw_worklog w"
  shows "\<exists>records. transformWorklogs rt ws' = Inr records \<and>
           list_all2 (normalized_from rt) ws records"
proof (cases "jira_post net jql k")
  case (Inl e)
  with assms(1) have "ws' = ws" by (simp add: try_enrich_def)
  with transformWorklogs_normalized [OF assms(2), of rt] show ?thesis by simp
next
  case (Inr data)
  show ?thesis
  proof (cases "build_issue_map rt data")
    case (Inl e)
    with assms(1) Inr have "ws' = ws" by (simp add: try_enrich_def)
    with transformWorklogs_normalized [OF assms(2), of rt] show ?thesis by simp
  next
    case m: (Inr m)
    with assms(1) Inr have "enrich_worklogs rt m ws = (c, ws')" by (simp add: try_enrich_def)
    from enrich_worklogs_normalized [OF this assms(2)] show ?thesis .
  qed
qed

lemma enrichWithIssueKeys_normalized:
  assumes "enrichWithIssueKeys rt net ws tr = (Inr ws', tr')" and "\<forall>w \<in> set ws. raw_worklog w"
  shows "\<exists>records. transformWorklogs rt ws' = Inr records \<and>
           list_all2 (normalized_from rt) ws records"
proof -
  from enrichWithIssueKeys_Inr [OF assms(1)] consider "ws' = ws"
    | jql k c where "try_enrich rt net jql k ws = (c, ws')" by blast
  then show ?thesis
  proof cases
    case 1
    with transformWorklogs_normalized [OF assms(2), of rt] show ?thesis by simp
  next
    case 2
    from try_enrich_normalized [OF 2 assms(2)] show ?thesis .
  qed
qed

lemma enrichWithIssueKeys_trace:
  assumes "enrichWithIssueKeys rt net ws tr = (r, tr')"
  shows "filter is_tempo_get tr' = filter is_tempo_get tr"
proof (cases "issueIds ws")
  case (Inl e)
  from enrichWithIssueKeys_ids_throw [OF Inl, of rt net tr] assms show ?thesis by simp
next
  case (Inr ids)
  show ?thesis
  proof (cases "ids = []")
    case True
    with Inr have "issueIds ws = Inr []" by simp
    from enrichWithIssueKeys_no_ids [OF this, of rt net tr] assms show ?thesis by simp
  next
    case False
    show ?thesis
    proof (cases "collect (map (to_string rt) ids)")
      case (Inl e)
      from enrichWithIssueKeys_join_throw [OF Inr False Inl, of net tr] assms show ?thesis by simp
    next
      case ss: (Inr ss)
      obtain caught ws1 where t: "try_enrich rt net (jql_text ss) (length ids) ws = (caught, ws1)"
        by (cases "try_enrich rt net (jql_text ss) (length ids) ws")
      from enrichWithIssueKeys_called [OF Inr False ss t, of tr] assms
      have "tr' = tr @ [JiraPost (jql_text ss) (length ids)] @ catch_block caught"
        by simp
      then show ?thesis by (cases caught) simp_all
    qed
  qed
qed

lemma getWorklogs_fetched:
  "fetch_pages rt net s e 0 [] [] = Some (Inr all, tr) \<Longrightarrow>
   getWorklogs rt net jira s e =
     (case (if jira \<and> all \<noteq> [] then enrichWithIssueKeys rt net all tr else (Inr all, tr)) of
        (Inl err, tr') \<Rightarrow> Some (Inl err, tr')
      | (Inr ws, tr') \<Rightarrow> Some (transformWorklogs rt ws, tr'))"
  by (simp add: getWorklogs_def)

lemma getWorklogs_fetch_failed:
  "fetch_pages rt net s e 0 [] [] = Some (Inl err, tr) \<Longrightarrow>
   getWorklogs rt net jira s e = Some (Inl err, tr)"
  by (simp add: getWorklogs_def)

lemma getWorklogs_plain:
  assumes "fetch_pages rt net s e 0 [] [] = Some (Inr all, tr)"
    and "\<forall>w \<in> set all. plain_worklog w"
  shows "\<exists>records tr'. getWorklogs rt net jira s e = Some (Inr records, tr') \<and>
           list_all2 (normalized_from rt) all records \<and>
           filter is_tempo_get tr' = filter is_tempo_get tr"
proof -
  from assms(2) have raw: "\<forall>w \<in> set all. raw_worklog w"
    by (simp add: plain_worklog_def)
  show ?thesis
  proof (cases "jira \<and> all \<noteq> []")
    case False
    with getWorklogs_fetched [OF assms(1), of jira]
    have "getWorklogs rt net jira s e = Some (transformWorklogs rt all, tr)" by auto
    with transformWorklogs_normalized [OF raw, of rt] show ?thesis by auto
  next
    case True
    from enrichWithIssueKeys_returns [OF assms(2), of rt net tr] obtain ws' tr' where
      en: "enrichWithIssueKeys rt net all tr = (Inr ws', tr')" by blast
    with True getWorklogs_fetched [OF assms(1), of jira]
    have "getWorklogs rt net jira s e = Some (transformWorklogs rt ws', tr')" by simp
    with enrichWithIssueKeys_normalized [OF en raw] enrichWithIssueKeys_trace [OF en]
    show ?thesis by auto
  qed
qed

lemma sum_list_upt_atMost: "sum_list (map f [0..<Suc n]) = (\<Sum>i\<le>n. (f i :: nat))"
  by (induction n) (simp_all del: upt_Suc add: upt_Suc_append)

text \<open>
  Claim C1. When the service answers the calls at offsets \<open>0, 50, \<dots>, 50 n\<close> with
  pages of plain worklogs, the first \<open>n\<close> reporting a next page and the last one not,
  \<^verbatim>\<open>getWorklogs\<close> returns, and what it returns is the concatenation of the pages in
  order: one record per fetched worklog, each the normalization of the worklog at its
  place (up to the issue key and summary that enrichment sets), as many records as the page
  sizes add up to, after exactly these \<open>n + 1\<close> calls.
\<close>

theorem getWorklogs_returns_all_pages:
  assumes "\<forall>i \<le> n. tempo_get net s e (i * limit) limit = Inr (page i)"
    and "\<forall>i \<le> n. get_prop (page i) ''results'' = JArr (results i)"
    and "\<forall>i < n. reports_next (page i)"
    and "\<not> reports_next (page n)"
    and "\<forall>i \<le> n. \<forall>w \<in> set (results i). plain_worklog w"
  shows "\<exists>records trace.
           getWorklogs rt net jiraClient s e = Some (Inr records, trace) \<and>
           list_all2 (normalized_from rt) (concat (map results [0..<Suc n])) records \<and>
           length records = (\<Sum>i\<le>n. length (results i)) \<and>
           filter is_tempo_get trace = map (\<lambda>i. TempoGet s e (i * limit) limit) [0..<Suc n]"
proof -
  let ?all = "concat (map results [0..<Suc n])"
  let ?tr = "map (\<lambda>i. TempoGet s e (i * limit) limit) [0..<Suc n]"
  have "fetch_pages rt net s e (0 * limit) [] [] = Some (Inr ([] @ ?all), [] @ ?tr)"
    using assms(1-4) by (intro fetch_pages_run) auto
  then have fetched: "fetch_pages rt net s e 0 [] [] = Some (Inr ?all, ?tr)"
    by simp
  have plain: "\<forall>w \<in> set ?all. plain_worklog w"
    using assms(5) by (auto simp del: upt_Suc simp add: less_Suc_eq_le)
  from getWorklogs_plain [OF fetched plain, of jiraClient] obtain records tr' where
    r: "getWorklogs rt net jiraClient s e = Some (Inr records, tr')"
       "list_all2 (normalized_from rt) ?all records"
       "filter is_tempo_get tr' = filter is_tempo_get ?tr" by blast
  have "length records = length ?all"
    using list_all2_lengthD [OF r(2)] by (simp del: upt_Suc)
  also have "\<dots> = sum_list (map (\<lambda>i. length (results i)) [0..<Suc n])"
    by (simp add: length_concat comp_def del: upt_Suc)
  also have "\<dots> = (\<Sum>i\<le>n. length (results i))"
    by (rule sum_list_upt_atMost)
  finally have len: "length records = (\<Sum>i\<le>n. length (results i))" .
  have "filter is_tempo_get ?tr = ?tr"
    by (simp add: filter_map comp_def del: upt_Suc)
  with r len show ?thesis by auto
qed

lemma try_enrich_throws:
  assumes "lookup_throws rt net jql k err"
  shows "try_enrich rt net jql k ws = (Some err, ws)"
proof (cases "jira_post net jql k")
  case (Inl e)
  with assms show ?thesis by (simp add: try_enrich_def lookup_throws_def)
next
  case (Inr data)
  with assms have "build_issue_map rt data = Inl err" by (simp add: lookup_throws_def)
  with Inr show ?thesis by (simp add: try_enrich_def)
qed

lemma issueIds_Nil: "issueIds [] = Inr []"
  by (simp add: issueIds_def new_Set_def)

text \<open>
  Claim C4. \<open>ids\<close> are the identifiers the enricher collects from the fetched worklogs
  and \<open>jql_text ss\<close> is the query it builds from them. When the lookup with this query and
  this batch size throws, whatever the reason and whatever the service would do with any
  other query, the error is caught and its message logged, and \<^verbatim>\<open>getWorklogs\<close> returns the
  normalization of the worklogs as they were fetched, one record each: the same records it
  returns when no issue tracker is configured. The trace gains the lookup call and the
  logged line.
\<close>

theorem lookup_failure_is_absorbed:
  assumes "fetch_pages rt net s e 0 [] [] = Some (Inr allWorklogs, trace)"
    and "\<forall>w \<in> set allWorklogs. raw_worklog w"
    and "issueIds allWorklogs = Inr ids" and "ids \<noteq> []"
    and "collect (map (to_string rt) ids) = Inr ss"
    and "lookup_throws rt net (jql_text ss) (length ids) err"
  shows "\<exists>records.
           getWorklogs rt net True s e =
             Some (Inr records,
                   trace @ [JiraPost (jql_text ss) (length ids),
                            ConsoleError ''Failed to fetch issue keys from Jira:''
                              (error_message err)]) \<and>
           transformWorklogs rt allWorklogs = Inr records \<and>
           length records = length allWorklogs \<and>
           getWorklogs rt net False s e = Some (Inr records, trace)"
proof -
  from transformWorklogs_normalized [OF assms(2), of rt] obtain records where
    records: "transformWorklogs rt allWorklogs = Inr records"
      "list_all2 (normalized_from rt) allWorklogs records" by blast
  have len: "length records = length allWorklogs"
    using list_all2_lengthD [OF records(2)] by simp
  have without: "getWorklogs rt net False s e = Some (Inr records, trace)"
    using getWorklogs_fetched [OF assms(1), of False] records(1) by simp
  from assms(3,4) have some: "allWorklogs \<noteq> []"
    using issueIds_Nil by auto
  have "try_enrich rt net (jql_text ss) (length ids) allWorklogs = (Some err, allWorklogs)"
    using assms(6) by (rule try_enrich_throws)
  from enrichWithIssueKeys_called [OF assms(3,4,5) this, of trace]
  have "enrichWithIssueKeys rt net allWorklogs trace =
      (Inr allWorklogs,
       trace @ [JiraPost (jql_text ss) (length ids),
                ConsoleError ''Failed to fetch issue keys from Jira:'' (error_message err)])"
    by simp
  with getWorklogs_fetched [OF assms(1), of True] some records(1)
  have "getWorklogs rt net True s e =
      Some (Inr records,
            trace @ [JiraPost (jql_text ss) (length ids),
                     ConsoleError ''Failed to fetch issue keys from Jira:'' (error_message err)])"
    by simp
  with records(1) len without show ?thesis by blast
qed

text \<open>
  The identifiers are collected and joined before the \<open>try\<close> block is entered, so an
  identifier without a primitive value is not absorbed; the plain worklogs above exclude it.
\<close>

lemma enrichWithIssueKeys_object_identifier:
  "enrichWithIssueKeys rt net [JObj [(''issue'', JObj [(''id'', JObj [(''toString'', JNum 1)])])]] tr =
     (Inl (TypeError ''Cannot convert object to primitive value''), tr)"
  by (simp add: enrichWithIssueKeys_def issueIds_def issue_id_def get_member_def opt_member_def
      new_Set_def set_add_def)

section \<open>The HTTP trigger\<close>

lemma div_step:
  fixes a k :: int
  assumes "0 < k"
  shows "(a + 1) div k = a div k + (if (a + 1) mod k = 0 then 1 else 0)"
proof (cases "a mod k = k - 1")
  case True
  have a: "a = k * (a div k) + (k - 1)"
    using True by (metis mult_div_mod_eq)
  have eq: "a + 1 = k * (a div k + 1) + 0"
    using a by (simp add: algebra_simps)
  have "(a + 1) div k = a div k + 1"
    using eq assms by (intro int_div_pos_eq [where r = 0]) auto
  moreover have "(a + 1) mod k = 0"
    using eq assms by (intro int_mod_pos_eq [where q = "a div k + 1"]) auto
  ultimately show ?thesis by simp
next
  case False
  have r: "0 \<le> a mod k" "a mod k < k"
    using assms by simp_all
  with False have lt: "a mod k + 1 < k" by simp
  have eq: "a + 1 = k * (a div k) + (a mod k + 1)"
    by simp
  have "(a + 1) div k = a div k"
    using eq r lt by (intro int_div_pos_eq [where r = "a mod k + 1"]) auto
  moreover have "(a + 1) mod k = a mod k + 1"
    using eq r lt by (intro int_mod_pos_eq [where q = "a div k"]) auto
  ultimately show ?thesis using r by simp
qed

lemma mod_shift_4: "((y::int) - 1968) mod 4 = y mod 4"
proof -
  have "(y - 1968) mod 4 = (y + 4 * (- 492)) mod 4" by simp
  also have "\<dots> = y mod 4" by (rule mod_mult_self2)
  finally show ?thesis .
qed

lemma mod_shift_100: "((y::int) - 1900) mod 100 = y mod 100"
proof -
  have "(y - 1900) mod 100 = (y + 100 * (- 19)) mod 100" by simp
  also have "\<dots> = y mod 100" by (rule mod_mult_self2)
  finally show ?thesis .
qed

lemma mod_shift_400: "((y::int) - 1600) mod 400 = y mod 400"
proof -
  have "(y - 1600) mod 400 = (y + 400 * (- 4)) mod 400" by simp
  also have "\<dots> = y mod 400" by (rule mod_mult_self2)
  finally show ?thesis .
qed

lemma day_from_year_Suc:
  "day_from_year (y + 1) = day_from_year y + (if in_leap_year y then 366 else 365)"
proof -
  have a: "(y - 1968) div 4 = (y - 1969) div 4 + (if y mod 4 = 0 then 1 else 0)"
    using div_step [of 4 "y - 1969"] by (simp add: mod_shift_4)
  have b: "(y - 1900) div 100 = (y - 1901) div 100 + (if y mod 100 = 0 then 1 else 0)"
    using div_step [of 100 "y - 1901"] by (simp add: mod_shift_100)
  have c: "(y - 1600) div 400 = (y - 1601) div 400 + (if y mod 400 = 0 then 1 else 0)"
    using div_step [of 400 "y - 1601"] by (simp add: mod_shift_400)
  have d: "y mod 4 = 0" if "y mod 100 = 0"
  proof -
    from that have "100 dvd y" by (simp add: mod_eq_0_iff_dvd)
    moreover have "(4::int) dvd 100" by simp
    ultimately have "4 dvd y" by (rule dvd_trans [rotated])
    then show ?thesis by (simp add: mod_eq_0_iff_dvd)
  qed
  have e: "y mod 100 = 0" if "y mod 400 = 0"
  proof -
    from that have "400 dvd y" by (simp add: mod_eq_0_iff_dvd)
    moreover have "(100::int) dvd 400" by simp
    ultimately have "100 dvd y" by (rule dvd_trans [rotated])
    then show ?thesis by (simp add: mod_eq_0_iff_dvd)
  qed
  have unfold: "day_from_year (y + 1) =
      365 * (y - 1969) + (y - 1968) div 4 - (y - 1900) div 100 + (y - 1600) div 400"
    by (simp add: day_from_year_def)
  show ?thesis
  proof (cases "y mod 4 = 0")
    case False
    with d e have "y mod 100 \<noteq> 0" "y mod 400 \<noteq> 0" by auto
    with False show ?thesis
      unfolding unfold a b c by (simp add: day_from_year_def in_leap_year_def)
  next
    case True
    show ?thesis
    proof (cases "y mod 100 = 0")
      case False
      with e have "y mod 400 \<noteq> 0" by auto
      with True False show ?thesis
        unfolding unfold a b c by (simp add: day_from_year_def in_leap_year_def)
    next
      case h: True
      show ?thesis
      proof (cases "y mod 400 = 0")
        case True
        with h \<open>y mod 4 = 0\<close> show ?thesis
          unfolding unfold a b c by (simp add: day_from_year_def in_leap_year_def)
      next
        case False
        with h \<open>y mod 4 = 0\<close> show ?thesis
          unfolding unfold a b c by (simp add: day_from_year_def in_leap_year_def)
      qed
    qed
  qed
qed

lemma day_from_year_mono_aux: "0 \<le> k \<Longrightarrow> day_from_year y + 365 * k \<le> day_from_year (y + k)"
proof (induction k rule: int_ge_induct)
  case base
  then show ?case by simp
next
  case (step i)
  have "day_from_year (y + (i + 1)) = day_from_year ((y + i) + 1)"
    by (simp add: add.assoc)
  also have "\<dots> \<ge> day_from_year (y + i) + 365"
    by (simp add: day_from_year_Suc)
  finally show ?case using step by simp
qed

lemma day_from_year_next: "y < y' \<Longrightarrow> day_from_year (y + 1) \<le> day_from_year y'"
  using day_from_year_mono_aux [of "y' - (y + 1)" "y + 1"] by simp

lemma month_cases:
  assumes "1 \<le> m" "m \<le> 12"
  shows "m = 1 \<or> m = 2 \<or> m = 3 \<or> m = 4 \<or> m = 5 \<or> m = 6 \<or> m = 7 \<or> m = 8 \<or> m = 9 \<or>
         m = 10 \<or> m = 11 \<or> m = (12::int)"
  using assms by arith

lemma days_before_next_month:
  assumes "1 \<le> m" "m \<le> 11"
  shows "days_before_month y (m + 1) = days_before_month y m + days_in_month y m"
proof -
  from assms have "m = 1 \<or> m = 2 \<or> m = 3 \<or> m = 4 \<or> m = 5 \<or> m = 6 \<or> m = 7 \<or> m = 8 \<or> m = 9 \<or>
         m = 10 \<or> m = (11::int)" by arith
  then show ?thesis
    by (elim disjE) (simp_all add: days_before_month_def days_in_month_def)
qed

lemma days_before_month_mono_aux:
  "0 \<le> k \<Longrightarrow> 1 \<le> m \<Longrightarrow> m + k \<le> 12 \<Longrightarrow> days_before_month y m \<le> days_before_month y (m + k)"
proof (induction k rule: int_ge_induct)
  case base
  then show ?case by simp
next
  case (step i)
  have "days_before_month y (m + (i + 1)) = days_before_month y ((m + i) + 1)"
    by (simp add: add.assoc)
  also have "\<dots> = days_before_month y (m + i) + days_in_month y (m + i)"
    using step by (intro days_before_next_month) auto
  also have "\<dots> \<ge> days_before_month y (m + i)"
    by (simp add: days_in_month_def)
  finally show ?case using step by simp
qed

lemma days_before_month_next:
  assumes "1 \<le> m" "m < m'" "m' \<le> 12"
  shows "days_before_month y m + days_in_month y m \<le> days_before_month y m'"
proof -
  have "days_before_month y (m + 1) \<le> days_before_month y ((m + 1) + (m' - (m + 1)))"
    using assms by (intro days_before_month_mono_aux) auto
  with days_before_next_month [of m y] assms show ?thesis by simp
qed

lemma year_length:
  assumes "1 \<le> m" "m \<le> 12"
  shows "days_before_month y m + days_in_month y m \<le> (if in_leap_year y then 366 else 365)"
  using month_cases [OF assms]
  by (elim disjE) (simp_all add: days_before_month_def days_in_month_def)

lemma days_before_month_nonneg:
  assumes "1 \<le> m" "m \<le> 12"
  shows "0 \<le> days_before_month y m"
  using month_cases [OF assms]
  by (elim disjE) (simp_all add: days_before_month_def)

lemma make_day_later:
  assumes "later (y, m, d) (y', m', d')"
    and "1 \<le> m" "m \<le> 12" "1 \<le> d" "d \<le> days_in_month y m"
    and "1 \<le> m'" "m' \<le> 12" "1 \<le> d'" "d' \<le> days_in_month y' m'"
  shows "make_day y' m' d' < make_day y m d"
proof -
  from assms(1) consider "y' < y" | "y' = y" "m' < m" | "y' = y" "m' = m" "d' < d"
    by auto
  then show ?thesis
  proof cases
    case 1
    have "make_day y' m' d' < day_from_year y' + (if in_leap_year y' then 366 else 365)"
      using year_length [OF assms(6,7), of y'] assms(9) by (simp add: make_day_def)
    also have "\<dots> = day_from_year (y' + 1)"
      by (simp add: day_from_year_Suc)
    also have "\<dots> \<le> day_from_year y"
      using 1 by (rule day_from_year_next)
    also have "\<dots> \<le> make_day y m d"
      using days_before_month_nonneg [OF assms(2,3), of y] assms(4) by (simp add: make_day_def)
    finally show ?thesis .
  next
    case 2
    have "make_day y' m' d' < day_from_year y + (days_before_month y m' + days_in_month y m')"
      using assms(9) 2 by (simp add: make_day_def)
    also have "\<dots> \<le> day_from_year y + days_before_month y m"
      using days_before_month_next [OF assms(6) 2(2) assms(3), of y] by simp
    also have "\<dots> \<le> make_day y m d"
      using assms(4) by (simp add: make_day_def)
    finally show ?thesis .
  next
    case 3
    then show ?thesis by (simp add: make_day_def)
  qed
qed

lemma days_in_month_le_31: "days_in_month y m \<le> 31"
  by (simp add: days_in_month_def)

lemma digit_value_bounds: "is_digit c \<Longrightarrow> 0 \<le> digit_value c \<and> digit_value c \<le> 9"
  by (auto simp: is_digit_def digit_value_def)

lemma decimal_snoc: "decimal (s @ [c]) = 10 * decimal s + digit_value c"
  by (simp add: decimal_def)

lemma decimal_bounds:
  "list_all is_digit s \<Longrightarrow> 0 \<le> decimal s \<and> decimal s < 10 ^ length s"
proof (induction s rule: rev_induct)
  case Nil
  then show ?case by (simp add: decimal_def)
next
  case (snoc c s)
  then have "0 \<le> decimal s" "decimal s < 10 ^ length s" by simp_all
  moreover from snoc.prems have "0 \<le> digit_value c" "digit_value c \<le> 9"
    using digit_value_bounds [of c] by simp_all
  ultimately show ?case by (simp add: decimal_snoc)
qed

lemma year_bounds:
  assumes "dateRegex_test s"
  shows "0 \<le> decimal (take 4 s)" "decimal (take 4 s) \<le> 9999"
proof -
  from assms have "list_all is_digit (take 4 s)" "length (take 4 s) = 4"
    by (simp_all add: dateRegex_test_def)
  with decimal_bounds [of "take 4 s"] show "0 \<le> decimal (take 4 s)" "decimal (take 4 s) \<le> 9999"
    by simp_all
qed

lemma days_before_month_le:
  assumes "1 \<le> m" "m \<le> 12"
  shows "days_before_month y m \<le> 335"
  using month_cases [OF assms]
  by (elim disjE) (simp_all add: days_before_month_def)

lemma make_day_bounds:
  assumes "0 \<le> y" "y \<le> 9999" "is_month m" "is_day d"
  shows "\<bar>make_day y m d * 86400000\<bar> \<le> 8640000000000000"
proof -
  from assms(3,4) have m: "1 \<le> m" "m \<le> 12" and d: "1 \<le> d" "d \<le> 31"
    by (simp_all add: is_month_def is_day_def)
  have "day_from_year 0 + 365 * y \<le> day_from_year (0 + y)"
    using assms(1) by (rule day_from_year_mono_aux)
  moreover have "day_from_year 0 = - 719528" by (simp add: day_from_year_def)
  ultimately have lo: "- 719528 \<le> day_from_year y" using assms(1) by simp
  have "day_from_year y + 365 * (9999 - y) \<le> day_from_year (y + (9999 - y))"
    using assms(2) by (intro day_from_year_mono_aux) simp
  moreover have "day_from_year 9999 = 2932532" by (simp add: day_from_year_def)
  ultimately have hi: "day_from_year y \<le> 2932532" using assms(2) by simp
  from lo hi days_before_month_nonneg [OF m, of y] days_before_month_le [OF m, of y] d
  have "- 719528 \<le> make_day y m d" "make_day y m d \<le> 2932898"
    by (simp_all add: make_day_def)
  then show ?thesis by linarith
qed

lemma new_Date_iso:
  assumes "dateRegex_test s" "is_month (decimal (take 2 (drop 5 s)))" "is_day (decimal (drop 8 s))"
  shows "new_Date rt s =
    Some (make_day (decimal (take 4 s)) (decimal (take 2 (drop 5 s))) (decimal (drop 8 s)) * 86400000)"
  using assms make_day_bounds [OF year_bounds [OF assms(1)] assms(2,3)]
  by (simp add: new_Date_def Let_def time_clip_def)

lemma new_Date_calendar:
  assumes "calendar_date s = Some (y, m, d)"
  shows "new_Date rt s = Some (make_day y m d * 86400000)"
proof -
  from assms have f: "y = decimal (take 4 s)" "m = decimal (take 2 (drop 5 s))"
    "d = decimal (drop 8 s)" "1 \<le> m" "m \<le> 12" "1 \<le> d" "d \<le> days_in_month y m"
    and r: "dateRegex_test s"
    by (auto simp: calendar_date_def Let_def split: if_splits)
  from f(7) days_in_month_le_31 [of y m] have "d \<le> 31" by linarith
  with f have "is_month (decimal (take 2 (drop 5 s)))" "is_day (decimal (drop 8 s))"
    by (simp_all add: is_month_def is_day_def)
  from new_Date_iso [OF r this, of rt] f(1-3) show ?thesis by simp
qed

lemma calendar_date_valid:
  assumes "calendar_date s = Some (y, m, d)"
  shows "dateRegex_test s" "1 \<le> m" "m \<le> 12" "1 \<le> d" "d \<le> days_in_month y m"
  using assms by (auto simp: calendar_date_def Let_def split: if_splits)

lemma inverted_range_date_greater:
  assumes "inverted_range s e"
  shows "date_greater (new_Date rt s) (new_Date rt e)"
proof -
  from assms obtain y m d y' m' d' where
    c: "calendar_date s = Some (y, m, d)" "calendar_date e = Some (y', m', d')"
    and l: "later (y, m, d) (y', m', d')"
    by (auto simp: inverted_range_def split: option.splits)
  from make_day_later [OF l calendar_date_valid(2-5) [OF c(1)] calendar_date_valid(2-5) [OF c(2)]]
  have "make_day y' m' d' < make_day y m d" .
  then show ?thesis
    by (simp add: new_Date_calendar [OF c(1)] new_Date_calendar [OF c(2)] date_greater_def)
qed

lemma handler_missing:
  assumes "missing (startDate req) \<or> missing (endDate req)"
  shows "handler rt net env req =
     Some (json 400
            (Object
               [(''error'', JStr ''Missing required parameters''),
                (''message'', JStr ''Both startDate and endDate query parameters are required (format: YYYY-MM-DD)''),
                (''example'', JStr ''/api/worklogs?startDate=2026-01-01&endDate=2026-01-31'')]),
           [ContextLog ''GetWorklogs function triggered''])"
  using assms by (simp add: handler_def Let_def)

lemma handler_format:
  assumes "\<not> missing (startDate req)" "\<not> missing (endDate req)"
    and "\<not> dateRegex_test (param (startDate req)) \<or> \<not> dateRegex_test (param (endDate req))"
  shows "handler rt net env req =
     Some (json 400
            (Object
               [(''error'', JStr ''Invalid date format''),
                (''message'', JStr ''Dates must be in YYYY-MM-DD format''),
                (''provided'', JObj [(''startDate'', string_or_undefined (startDate req)),
                                     (''endDate'', string_or_undefined (endDate req))])]),
           [ContextLog ''GetWorklogs function triggered''])"
  using assms by (simp add: handler_def Let_def)

lemma handler_range:
  assumes "\<not> missing (startDate req)" "\<not> missing (endDate req)"
    and "dateRegex_test (param (startDate req))" "dateRegex_test (param (endDate req))"
    and "date_greater (new_Date rt (param (startDate req))) (new_Date rt (param (endDate req)))"
  shows "handler rt net env req =
     Some (json 400
            (Object
               [(''error'', JStr ''Invalid date range''),
                (''message'', JStr ''startDate must be before or equal to endDate'')]),
           [ContextLog ''GetWorklogs function triggered''])"
  using assms by (simp add: handler_def Let_def)

lemma handler_valid:
  assumes "\<not> missing (startDate req)" "\<not> missing (endDate req)"
    and "dateRegex_test (param (startDate req))" "dateRegex_test (param (endDate req))"
    and "\<not> date_greater (new_Date rt (param (startDate req))) (new_Date rt (param (endDate req)))"
    and "\<not> missing (TEMPO_API_TOKEN env)"
  shows "handler rt net env req =
     (case getWorklogs rt net (\<not> missing (JIRA_API_TOKEN env))
                      (param (startDate req)) (param (endDate req)) of
                 None \<Rightarrow> None
               | Some (Inl e, calls) \<Rightarrow>
                   Some (failure e,
                     [ContextLog ''GetWorklogs function triggered''] @ calls @
                     [ContextLogError ''Error fetching worklogs:'' (error_message e)])
               | Some (Inr worklogs, calls) \<Rightarrow>
                   (case success rt req worklogs of
                      Inl e \<Rightarrow>
                        Some (failure e,
                          [ContextLog ''GetWorklogs function triggered''] @ calls @
                          [ContextLogError ''Error fetching worklogs:'' (error_message e)])
                    | Inr res \<Rightarrow> Some (res, [ContextLog ''GetWorklogs function triggered''] @ calls)))"
  using assms by (simp add: handler_def Let_def)

text \<open>
  Claim C9. A request with a missing \<^verbatim>\<open>startDate\<close> or \<^verbatim>\<open>endDate\<close>, with a date that does
  not have the shape \<^verbatim>\<open>YYYY-MM-DD\<close> (four digits, two digits, two digits), or with two
  calendar days of which the start is the later one is answered with status 400 and a body
  that starts with an \<^verbatim>\<open>error\<close> label and a \<^verbatim>\<open>message\<close>, whatever the services would do:
  the trace holds the first log line and no upstream call. The shape is all the format
  check looks at; the examples at the end show requests whose dates name no calendar day
  and which are served.
\<close>

theorem handler_rejects_bad_dates:
  assumes "missing (startDate req) \<or> missing (endDate req) \<or>
           \<not> dateRegex_test (param (startDate req)) \<or> \<not> dateRegex_test (param (endDate req)) \<or>
           inverted_range (param (startDate req)) (param (endDate req))"
  shows "\<exists>label message more.
           handler rt net env req =
             Some (json 400 (Object ((''error'', JStr label) # (''message'', JStr message) # more)),
                   [ContextLog ''GetWorklogs function triggered'']) \<and>
           \<not> list_ex upstream_call [ContextLog ''GetWorklogs function triggered'']"
proof -
  consider "missing (startDate req) \<or> missing (endDate req)"
    | "\<not> missing (startDate req)" "\<not> missing (endDate req)"
      "\<not> dateRegex_test (param (startDate req)) \<or> \<not> dateRegex_test (param (endDate req))"
    | "\<not> missing (startDate req)" "\<not> missing (endDate req)"
      "dateRegex_test (param (startDate req))" "dateRegex_test (param (endDate req))"
      "inverted_range (param (startDate req)) (param (endDate req))"
    using assms by blast
  moreover have quiet: "\<not> list_ex upstream_call [ContextLog ''GetWorklogs function triggered'']"
    by simp
  ultimately show ?thesis
  proof cases
    case 1
    from handler_missing [OF 1, of rt net env] quiet show ?thesis by blast
  next
    case 2
    from handler_format [OF 2, of rt net env] quiet show ?thesis by blast
  next
    case 3
    from handler_range [OF 3(1-4) inverted_range_date_greater [OF 3(5)], of rt net env] quiet
    show ?thesis by blast
  qed
qed

text \<open>
  The format check looks at the shape only. A string of that shape with a month above 12
  and a year that cannot be a day parses to an invalid date; every comparison with an
  invalid date is false, and the range check lets it through.
\<close>

lemma no_such_day_passes:
  "dateRegex_test ''2026-13-45''"
  "new_Date rt ''2026-13-45'' = None"
  "\<not> date_greater (new_Date rt ''2026-13-45'') (new_Date rt ''2026-01-01'')"
  by (simp_all add: dateRegex_test_def is_digit_def new_Date_def legacy_date_def decimal_def
      digit_value_def is_month_def is_day_def date_greater_def)

text \<open>
  With a year from 1 to 12 the legacy form takes over: \<^verbatim>\<open>0001-01-45\<close> is the first of
  January 2045 in local time, which is later than the first of January 2026 wherever the
  process runs.
\<close>

lemma legacy_form:
  "new_Date rt ''0001-01-45'' = time_clip (local_to_utc rt (make_day 2045 1 1 * 86400000))"
  by (simp add: new_Date_def legacy_date_def decimal_def digit_value_def is_month_def is_day_def
      legacy_year_def)

lemma legacy_form_rejected:
  assumes "\<bar>local_to_utc rt (make_day 2045 1 1 * 86400000) - make_day 2045 1 1 * 86400000\<bar>
             \<le> 86400000"
  shows "handler rt net env
           \<lparr> startDate = Some ''0001-01-45'', endDate = Some ''2026-01-01'', format = None \<rparr> =
         Some (json 400
                (Object
                   [(''error'', JStr ''Invalid date range''),
                    (''message'', JStr ''startDate must be before or equal to endDate'')]),
           [ContextLog ''GetWorklogs function triggered''])"
proof -
  have day: "make_day 2045 1 1 = 27394" "make_day 2026 1 1 = 20454"
    by (simp_all add: make_day_def day_from_year_def days_before_month_def)
  have e: "new_Date rt ''2026-01-01'' = Some (20454 * 86400000)"
    by (simp add: new_Date_def decimal_def digit_value_def is_month_def is_day_def day
        time_clip_def)
  from assms have b: "27393 * 86400000 \<le> local_to_utc rt (27394 * 86400000)"
    "local_to_utc rt (27394 * 86400000) \<le> 27395 * 86400000"
    unfolding day by linarith+
  then have "time_clip (local_to_utc rt (27394 * 86400000)) =
      Some (local_to_utc rt (27394 * 86400000))"
    by (simp add: time_clip_def)
  with b have "date_greater (new_Date rt ''0001-01-45'') (new_Date rt ''2026-01-01'')"
    by (simp add: legacy_form e day date_greater_def)
  then show ?thesis
    by (intro handler_range)
      (simp_all add: dateRegex_test_def is_digit_def)
qed

lemma failure_no_response:
  "failure (RequestError message None) =
     json 500 (Object [(''error'', JStr ''Failed to retrieve worklogs''),
                       (''message'', JStr message), (''details'', JNull)])"
  by (simp add: failure_def js_or_def opt_member_def)

lemma failure_response:
  "failure (RequestError message (Some (st, d))) =
     json (if st = 0 then 500 else st)
       (Object [(''error'', JStr ''Failed to retrieve worklogs''),
                (''message'', js_or (opt_member d ''message'') (JStr message)),
                (''details'', js_or d JNull)])"
  by (simp add: failure_def)

text \<open>
  Claim C7. When a call of the page loop throws the HTTP client's error, after any number
  of pages that reported a next one, a valid request fails as a whole: the status is the
  one of the service's answer when there is one (and it is not \<open>0\<close>), otherwise 500;
  the body is \<^verbatim>\<open>{error: "Failed to retrieve worklogs", message, details}\<close> and holds no
  worklog; and the only upstream calls made are the page calls up to the failing one.
\<close>

theorem fetch_failure_fails_request:
  assumes "\<not> missing (startDate req)" "\<not> missing (endDate req)"
    and "dateRegex_test (param (startDate req))" "dateRegex_test (param (endDate req))"
    and "\<not> date_greater (new_Date rt (param (startDate req))) (new_Date rt (param (endDate req)))"
    and "\<not> missing (TEMPO_API_TOKEN env)"
    and "\<forall>i < n. tempo_get net (param (startDate req)) (param (endDate req)) (i * limit) limit
                   = Inr (page i)"
    and "\<forall>i < n. get_prop (page i) ''results'' = JArr (results i)"
    and "\<forall>i < n. reports_next (page i)"
    and "tempo_get net (param (startDate req)) (param (endDate req)) (n * limit) limit
           = Inl (RequestError message response)"
  shows "\<exists>trace.
           handler rt net env req =
             Some (json (case response of None \<Rightarrow> 500 | Some (st, d) \<Rightarrow> if st = 0 then 500 else st)
                     (Object
                        [(''error'', JStr ''Failed to retrieve worklogs''),
                         (''message'',
                            case response of
                              None \<Rightarrow> JStr message
                            | Some (st, d) \<Rightarrow> js_or (opt_member d ''message'') (JStr message)),
                         (''details'',
                            case response of None \<Rightarrow> JNull | Some (st, d) \<Rightarrow> js_or d JNull)]),
                   trace) \<and>
           filter upstream_call trace =
             map (\<lambda>i. TempoGet (param (startDate req)) (param (endDate req)) (i * limit) limit)
               [0..<Suc n]"
proof -
  let ?s = "param (startDate req)" and ?e = "param (endDate req)"
  let ?calls = "map (\<lambda>i. TempoGet ?s ?e (i * limit) limit) [0..<Suc n]"
  let ?err = "RequestError message response"
  have "fetch_pages rt net ?s ?e (0 * limit) [] [] = Some (Inl ?err, [] @ ?calls)"
    using assms(7-10) by (intro fetch_pages_fail) auto
  then have "fetch_pages rt net ?s ?e 0 [] [] = Some (Inl ?err, ?calls)"
    by simp
  then have "getWorklogs rt net (\<not> missing (JIRA_API_TOKEN env)) ?s ?e = Some (Inl ?err, ?calls)"
    by (rule getWorklogs_fetch_failed)
  with handler_valid [OF assms(1-6), of net]
  have h: "handler rt net env req =
      Some (failure ?err,
            [ContextLog ''GetWorklogs function triggered''] @ ?calls @
            [ContextLogError ''Error fetching worklogs:'' (error_message ?err)])"
    by simp
  have calls: "filter upstream_call
      ([ContextLog ''GetWorklogs function triggered''] @ ?calls @
       [ContextLogError ''Error fetching worklogs:'' (error_message ?err)]) = ?calls"
    by (simp add: filter_map comp_def del: upt_Suc)
  show ?thesis
  proof (cases response)
    case None
    with h calls failure_no_response [of message] show ?thesis by (simp del: upt_Suc)
  next
    case (Some p)
    obtain st d where "p = (st, d)" by (cases p)
    with Some h calls failure_response [of message st d] show ?thesis by (simp del: upt_Suc)
  qed
qed

section \<open>The examples, run\<close>

lemma plain_examples:
  "plain_worklog login_worklog" "plain_worklog review_worklog" "plain_worklog bare_worklog"
  by (simp_all add: plain_worklog_def raw_worklog_def opt_member_def
      login_worklog_def review_worklog_def bare_worklog_def)

lemma pages_report:
  "reports_next first_page" "\<not> reports_next second_page"
  by (simp_all add: reports_next_def opt_member_def first_page_def second_page_def)

theorem getWorklogs_returns_all_pages_witness:
  "\<forall>rt. \<exists>records trace.
     getWorklogs rt answering True ''2026-01-01'' ''2026-01-31'' = Some (Inr records, trace) \<and>
     list_all2 (normalized_from rt) [login_worklog, review_worklog, bare_worklog] records \<and>
     length records = 3 \<and>
     filter is_tempo_get trace =
       [TempoGet ''2026-01-01'' ''2026-01-31'' 0 50, TempoGet ''2026-01-01'' ''2026-01-31'' 50 50]"
proof
  fix rt
  let ?page = "\<lambda>i::nat. if i = 0 then first_page else second_page"
  let ?results = "\<lambda>i::nat. if i = 0 then [login_worklog, review_worklog] else [bare_worklog]"
  have 1: "\<forall>i \<le> Suc 0. tempo_get answering ''2026-01-01'' ''2026-01-31'' (i * limit) limit = Inr (?page i)"
    by (simp add: answering_def two_pages_def limit_def)
  have 2: "\<forall>i \<le> Suc 0. get_prop (?page i) ''results'' = JArr (?results i)"
    by (simp add: first_page_def second_page_def)
  have 3: "\<forall>i < Suc 0. reports_next (?page i)"
    by (simp add: pages_report)
  have 4: "\<not> reports_next (?page (Suc 0))"
    by (simp add: pages_report)
  have 5: "\<forall>i \<le> Suc 0. \<forall>w \<in> set (?results i). plain_worklog w"
    by (simp add: plain_examples)
  from getWorklogs_returns_all_pages [OF 1 2 3 4 5, of rt True]
  show "\<exists>records trace.
     getWorklogs rt answering True ''2026-01-01'' ''2026-01-31'' = Some (Inr records, trace) \<and>
     list_all2 (normalized_from rt) [login_worklog, review_worklog, bare_worklog] records \<and>
     length records = 3 \<and>
     filter is_tempo_get trace =
       [TempoGet ''2026-01-01'' ''2026-01-31'' 0 50, TempoGet ''2026-01-01'' ''2026-01-31'' 50 50]"
    by (simp add: limit_def numeral_3_eq_3)
qed


lemma two_pages_fetched:
  "fetch_pages rt net s e 0 [] [] =
     Some (Inr [login_worklog, review_worklog, bare_worklog],
           [TempoGet s e 0 50, TempoGet s e 50 50])"
  if "tempo_get net = two_pages"
proof -
  have a: "read_page rt (Inr first_page) = Inr ([login_worklog, review_worklog], JStr ''/4/worklogs?offset=50'')"
    by (simp add: read_page_def first_page_def js_and_def)
  have b: "read_page rt (Inr second_page) = Inr ([bare_worklog], JUndefined)"
    by (simp add: read_page_def second_page_def js_and_def)
  have "fetch_pages rt net s e 50 [login_worklog, review_worklog] [TempoGet s e 0 50] =
     Some (Inr [login_worklog, review_worklog, bare_worklog],
           [TempoGet s e 0 50, TempoGet s e 50 50])"
    by (subst fetch_pages.simps) (simp add: that two_pages_def limit_def b)
  then show ?thesis
    by (subst fetch_pages.simps) (simp add: that two_pages_def limit_def a)
qed

lemma example_ids:
  "issueIds [login_worklog, review_worklog, bare_worklog] = Inr [JNum 10001, JNum 10002]"
  by (simp add: issueIds_def issue_id_def get_member_def opt_member_def new_Set_def set_add_def
      same_value_zero_def login_worklog_def review_worklog_def bare_worklog_def)

lemma digits_10001: "digits 10001 = ''10001''"
  by (simp add: digits_small digits_large digit_char_def)

lemma digits_10002: "digits 10002 = ''10002''"
  by (simp add: digits_small digits_large digit_char_def)

lemma example_keys:
  "number_to_string rt 10001 = ''10001''" "number_to_string rt 10002 = ''10002''"
  using number_to_string_nat [of 10001 rt] number_to_string_nat [of 10002 rt]
  by (simp_all add: digits_10001 digits_10002)

lemma example_jql: "jql_text [''10001'', ''10002''] = ''id in (10001,10002)''"
  by (simp add: jql_text_def)

lemma example_collect:
  "collect (map (to_string rt) [JNum 10001, JNum 10002]) = Inr [''10001'', ''10002'']"
  by (simp add: example_keys)

text \<open>
  Three ways for the lookup to throw: no connection, an answer without a body, and a
  service that rejects the batch of two the program sends and would have answered a batch
  of one.
\<close>

lemma unreachable_throws:
  "lookup_throws rt unreachable jql k (RequestError ''connect ECONNREFUSED'' None)"
  by (simp add: lookup_throws_def unreachable_def)

lemma speechless_throws:
  "lookup_throws rt speechless jql k
     (TypeError ''Cannot read properties of null or undefined: issues'')"
  by (simp add: lookup_throws_def speechless_def build_issue_map_def get_member_def)

lemma batch_limited_throws:
  "lookup_throws rt batch_limited jql 2
     (RequestError ''Request failed with status code 400''
        (Some (400, JObj [(''errorMessages'', JArr [JStr ''Batch too large''])])))"
  "jira_post batch_limited jql 1 = Inr found_issues"
  by (simp_all add: lookup_throws_def batch_limited_def)

lemma raw_examples:
  "\<forall>w \<in> set [login_worklog, review_worklog, bare_worklog]. raw_worklog w"
  using plain_examples by (simp add: plain_worklog_def)

theorem lookup_failure_is_absorbed_witness:
  "\<forall>rt. issueIds [login_worklog, review_worklog, bare_worklog] = Inr [JNum 10001, JNum 10002] \<and>
     jira_post batch_limited ''id in (10001)'' 1 = Inr found_issues \<and>
     lookup_throws rt batch_limited ''id in (10001,10002)'' 2
       (RequestError ''Request failed with status code 400''
          (Some (400, JObj [(''errorMessages'', JArr [JStr ''Batch too large''])]))) \<and>
     (\<exists>records.
        getWorklogs rt batch_limited True ''2026-01-01'' ''2026-01-31'' =
          Some (Inr records,
                [TempoGet ''2026-01-01'' ''2026-01-31'' 0 50,
                 TempoGet ''2026-01-01'' ''2026-01-31'' 50 50,
                 JiraPost ''id in (10001,10002)'' 2,
                 ConsoleError ''Failed to fetch issue keys from Jira:''
                   ''Request failed with status code 400'']) \<and>
        transformWorklogs rt [login_worklog, review_worklog, bare_worklog] = Inr records \<and>
        length records = 3 \<and>
        getWorklogs rt batch_limited False ''2026-01-01'' ''2026-01-31'' =
          Some (Inr records,
                [TempoGet ''2026-01-01'' ''2026-01-31'' 0 50,
                 TempoGet ''2026-01-01'' ''2026-01-31'' 50 50]))"
proof
  fix rt
  let ?s = "''2026-01-01''" and ?e = "''2026-01-31''"
  let ?all = "[login_worklog, review_worklog, bare_worklog]"
  let ?err = "RequestError ''Request failed with status code 400''
          (Some (400, JObj [(''errorMessages'', JArr [JStr ''Batch too large''])]))"
  have fetched: "fetch_pages rt batch_limited ?s ?e 0 [] [] =
     Some (Inr ?all, [TempoGet ?s ?e 0 50, TempoGet ?s ?e 50 50])"
    by (rule two_pages_fetched) (simp add: batch_limited_def)
  have ne: "[JNum 10001, JNum 10002] \<noteq> []" by simp
  have throws: "lookup_throws rt batch_limited (jql_text [''10001'', ''10002''])
      (length [JNum 10001, JNum 10002]) ?err"
    using batch_limited_throws(1) [of rt "jql_text [''10001'', ''10002'']"]
    by (simp add: numeral_2_eq_2)
  from lookup_failure_is_absorbed [OF fetched raw_examples example_ids ne example_collect throws]
  have "\<exists>records.
        getWorklogs rt batch_limited True ?s ?e =
          Some (Inr records,
                [TempoGet ?s ?e 0 50, TempoGet ?s ?e 50 50,
                 JiraPost ''id in (10001,10002)'' 2,
                 ConsoleError ''Failed to fetch issue keys from Jira:''
                   ''Request failed with status code 400'']) \<and>
        transformWorklogs rt ?all = Inr records \<and>
        length records = 3 \<and>
        getWorklogs rt batch_limited False ?s ?e =
          Some (Inr records, [TempoGet ?s ?e 0 50, TempoGet ?s ?e 50 50])"
    by (simp add: example_jql numeral_2_eq_2 numeral_3_eq_3)
  with example_ids batch_limited_throws(1) [of rt] batch_limited_throws(2)
  show "issueIds [login_worklog, review_worklog, bare_worklog] = Inr [JNum 10001, JNum 10002] \<and>
     jira_post batch_limited ''id in (10001)'' 1 = Inr found_issues \<and>
     lookup_throws rt batch_limited ''id in (10001,10002)'' 2 ?err \<and>
     (\<exists>records.
        getWorklogs rt batch_limited True ''2026-01-01'' ''2026-01-31'' =
          Some (Inr records,
                [TempoGet ''2026-01-01'' ''2026-01-31'' 0 50,
                 TempoGet ''2026-01-01'' ''2026-01-31'' 50 50,
                 JiraPost ''id in (10001,10002)'' 2,
                 ConsoleError ''Failed to fetch issue keys from Jira:''
                   ''Request failed with status code 400'']) \<and>
        transformWorklogs rt [login_worklog, review_worklog, bare_worklog] = Inr records \<and>
        length records = 3 \<and>
        getWorklogs rt batch_limited False ''2026-01-01'' ''2026-01-31'' =
          Some (Inr records,
                [TempoGet ''2026-01-01'' ''2026-01-31'' 0 50,
                 TempoGet ''2026-01-01'' ''2026-01-31'' 50 50]))"
    by simp
qed

lemma found_issue_map:
  "build_issue_map rt found_issues =
     Inr \<lparr> own = [(''10001'', JObj [(''key'', JStr ''PROJ-1''), (''summary'', JStr ''Fix login'')])],
           proto = None \<rparr>"
  by (simp add: build_issue_map_def found_issues_def get_member_def add_issue_def assign_def
      empty_issue_map_def)

lemma lookup_found:
  "lookup \<lparr> own = [(''10001'', v)], proto = None \<rparr> ''10001'' = Value v"
  "lookup \<lparr> own = [(''10001'', v)], proto = None \<rparr> ''10002'' = Absent"
  by (simp_all add: lookup_def object_prototype_names_def)

lemma enrich_login:
  "enrich_worklog rt \<lparr> own = [(''10001'', JObj [(''key'', JStr ''PROJ-1''), (''summary'', JStr ''Fix login'')])],
           proto = None \<rparr> login_worklog = Inr enriched_login_worklog"
  by (simp add: enrich_worklog_def issue_id_def get_member_def opt_member_def login_worklog_def
      example_keys lookup_found assign_issue_def enriched_login_worklog_def)

lemma enrich_review:
  "enrich_worklog rt \<lparr> own = [(''10001'', v)], proto = None \<rparr> review_worklog = Inr review_worklog"
  by (simp add: enrich_worklog_def issue_id_def get_member_def opt_member_def review_worklog_def
      example_keys lookup_found)

lemma enrich_bare:
  "enrich_worklog rt m bare_worklog = Inr bare_worklog"
  by (simp add: enrich_worklog_def issue_id_def get_member_def opt_member_def bare_worklog_def)

lemma answering_enrich:
  "enrichWithIssueKeys rt answering [login_worklog, review_worklog, bare_worklog] tr =
        (Inr [enriched_login_worklog, review_worklog, bare_worklog],
         tr @ [JiraPost ''id in (10001,10002)'' 2])"
proof -
  have t: "try_enrich rt answering (jql_text [''10001'', ''10002'']) (length [JNum 10001, JNum 10002])
        [login_worklog, review_worklog, bare_worklog]
      = (None, [enriched_login_worklog, review_worklog, bare_worklog])"
    by (simp add: try_enrich_def answering_def found_issue_map enrich_login enrich_review enrich_bare)
  have ne: "[JNum 10001, JNum 10002] \<noteq> []" by simp
  from enrichWithIssueKeys_called [OF example_ids ne example_collect t, of tr] show ?thesis
    by (simp add: example_jql)
qed

theorem enrichWithIssueKeys_idempotent_witness:
  "\<forall>rt. enrichWithIssueKeys rt answering [login_worklog, review_worklog, bare_worklog] [] =
          (Inr [enriched_login_worklog, review_worklog, bare_worklog],
           [JiraPost ''id in (10001,10002)'' 2]) \<and>
        fst (enrichWithIssueKeys rt answering [enriched_login_worklog, review_worklog, bare_worklog] [])
          = Inr [enriched_login_worklog, review_worklog, bare_worklog]"
proof
  fix rt
  have first: "enrichWithIssueKeys rt answering [login_worklog, review_worklog, bare_worklog] [] =
          (Inr [enriched_login_worklog, review_worklog, bare_worklog],
           [JiraPost ''id in (10001,10002)'' 2])"
    using answering_enrich [of rt "[]"] by simp
  from first enrichWithIssueKeys_idempotent [OF first, of "[]"]
  show "enrichWithIssueKeys rt answering [login_worklog, review_worklog, bare_worklog] [] =
          (Inr [enriched_login_worklog, review_worklog, bare_worklog],
           [JiraPost ''id in (10001,10002)'' 2]) \<and>
        fst (enrichWithIssueKeys rt answering [enriched_login_worklog, review_worklog, bare_worklog] [])
          = Inr [enriched_login_worklog, review_worklog, bare_worklog]"
    by simp
qed

lemma decimal_examples:
  "decimal ''2026'' = 2026" "decimal ''01'' = 1" "decimal ''02'' = 2" "decimal ''31'' = 31"
  by (simp_all add: decimal_def digit_value_def)

lemma regex_examples:
  "dateRegex_test ''2026-01-01''" "dateRegex_test ''2026-01-31''" "dateRegex_test ''2026-02-01''"
  by (simp_all add: dateRegex_test_def is_digit_def)

lemma calendar_examples:
  "calendar_date ''2026-01-01'' = Some (2026, 1, 1)"
  "calendar_date ''2026-01-31'' = Some (2026, 1, 31)"
  "calendar_date ''2026-02-01'' = Some (2026, 2, 1)"
  by (simp_all add: calendar_date_def regex_examples decimal_examples days_in_month_def
      in_leap_year_def)

lemma january_valid:
  "\<not> missing (startDate january)" "\<not> missing (endDate january)"
  "dateRegex_test (param (startDate january))" "dateRegex_test (param (endDate january))"
  "\<not> date_greater (new_Date rt (param (startDate january))) (new_Date rt (param (endDate january)))"
  by (simp_all add: january_def regex_examples new_Date_calendar [OF calendar_examples(1)]
      new_Date_calendar [OF calendar_examples(2)] date_greater_def make_day_def)

theorem handler_rejects_bad_dates_witness:
  "\<forall>rt net env.
     inverted_range ''2026-02-01'' ''2026-01-01'' \<and>
     handler rt net env inverted =
       Some (json 400
              (Object [(''error'', JStr ''Invalid date range''),
                       (''message'', JStr ''startDate must be before or equal to endDate'')]),
             [ContextLog ''GetWorklogs function triggered''])"
proof (intro allI)
  fix rt net env
  have inv: "inverted_range ''2026-02-01'' ''2026-01-01''"
    by (simp add: inverted_range_def calendar_examples)
  then have hyp: "missing (startDate inverted) \<or> missing (endDate inverted) \<or>
           \<not> dateRegex_test (param (startDate inverted)) \<or>
           \<not> dateRegex_test (param (endDate inverted)) \<or>
           inverted_range (param (startDate inverted)) (param (endDate inverted))"
    by (simp add: inverted_def)
  from handler_rejects_bad_dates [OF hyp, of rt net env] obtain label message more where
    h: "handler rt net env inverted =
             Some (json 400 (Object ((''error'', JStr label) # (''message'', JStr message) # more)),
                   [ContextLog ''GetWorklogs function triggered''])"
    by blast
  have "handler rt net env inverted =
       Some (json 400
              (Object [(''error'', JStr ''Invalid date range''),
                       (''message'', JStr ''startDate must be before or equal to endDate'')]),
             [ContextLog ''GetWorklogs function triggered''])"
    using inverted_range_date_greater [OF inv]
    by (intro handler_range) (simp_all add: inverted_def regex_examples)
  with inv h show "inverted_range ''2026-02-01'' ''2026-01-01'' \<and>
     handler rt net env inverted =
       Some (json 400
              (Object [(''error'', JStr ''Invalid date range''),
                       (''message'', JStr ''startDate must be before or equal to endDate'')]),
             [ContextLog ''GetWorklogs function triggered''])"
    by simp
qed

text \<open>
  A request whose start has a thirteenth month passes the checks: the time-tracking
  service is called and the answer is 200. So does a range from the second of March back
  to the thirtieth of February, which the engine reads as the second of March.
\<close>

lemma nothing_logged_fetched:
  "getWorklogs rt nothing_logged jira s e = Some (Inr [], [TempoGet s e 0 50])"
proof -
  have "read_page rt (Inr (JObj [(''results'', JArr []), (''metadata'', JObj [])])) =
      Inr ([], JUndefined)"
    by (simp add: read_page_def js_and_def)
  then have "fetch_pages rt nothing_logged s e 0 [] [] = Some (Inr [], [TempoGet s e 0 50])"
    by (subst fetch_pages.simps) (simp add: nothing_logged_def limit_def)
  from getWorklogs_fetched [OF this, of jira] show ?thesis
    by (simp add: transformWorklogs_def)
qed

lemma flat_nothing:
  "format req = Some ''flat'' \<Longrightarrow> success rt req [] = Inr (json 200 (Flat []))"
  by (simp add: success_def Let_def)

theorem handler_rejects_bad_dates_counterexample:
  "dateRegex_test ''2026-13-45'' \<and> calendar_date ''2026-13-45'' = None \<and>
   handler idle_runtime nothing_logged configured thirteenth_month =
     Some (json 200 (Flat []),
           [ContextLog ''GetWorklogs function triggered'',
            TempoGet ''2026-13-45'' ''2026-01-01'' 0 50])"
proof -
  have shape: "dateRegex_test ''2026-13-45''" "dateRegex_test ''2026-01-01''"
    by (simp_all add: dateRegex_test_def is_digit_def)
  have "calendar_date ''2026-13-45'' = None"
    by (simp add: calendar_date_def decimal_def digit_value_def)
  moreover have "handler idle_runtime nothing_logged configured thirteenth_month =
     Some (json 200 (Flat []),
           [ContextLog ''GetWorklogs function triggered'',
            TempoGet ''2026-13-45'' ''2026-01-01'' 0 50])"
    using handler_valid [of thirteenth_month idle_runtime configured nothing_logged]
    by (simp add: thirteenth_month_def shape no_such_day_passes date_greater_def configured_def
        nothing_logged_fetched flat_nothing)
  ultimately show ?thesis using shape by simp
qed

lemma thirtieth_of_february_served:
  "calendar_date ''2026-02-30'' = None"
  "new_Date rt ''2026-02-30'' = new_Date rt ''2026-03-02''"
  "handler rt nothing_logged configured thirtieth_of_february =
     Some (json 200 (Flat []),
           [ContextLog ''GetWorklogs function triggered'',
            TempoGet ''2026-03-02'' ''2026-02-30'' 0 50])"
proof -
  show "calendar_date ''2026-02-30'' = None"
    by (simp add: calendar_date_def decimal_def digit_value_def days_in_month_def
        in_leap_year_def)
  have shape: "dateRegex_test ''2026-03-02''" "dateRegex_test ''2026-02-30''"
    by (simp_all add: dateRegex_test_def is_digit_def)
  have a: "new_Date rt ''2026-03-02'' = Some (make_day 2026 3 2 * 86400000)"
    using new_Date_iso [OF shape(1), of rt]
    by (simp add: decimal_def digit_value_def is_month_def is_day_def)
  have b: "new_Date rt ''2026-02-30'' = Some (make_day 2026 2 30 * 86400000)"
    using new_Date_iso [OF shape(2), of rt]
    by (simp add: decimal_def digit_value_def is_month_def is_day_def)
  have c: "make_day 2026 2 30 = make_day 2026 3 2"
    by (simp add: make_day_def days_before_month_def in_leap_year_def)
  from a b c show same: "new_Date rt ''2026-02-30'' = new_Date rt ''2026-03-02''"
    by simp
  then have "\<not> date_greater (new_Date rt ''2026-03-02'') (new_Date rt ''2026-02-30'')"
    by (simp add: a date_greater_def)
  then show "handler rt nothing_logged configured thirtieth_of_february =
     Some (json 200 (Flat []),
           [ContextLog ''GetWorklogs function triggered'',
            TempoGet ''2026-03-02'' ''2026-02-30'' 0 50])"
    using handler_valid [of thirtieth_of_february rt configured nothing_logged]
    by (simp add: thirtieth_of_february_def shape configured_def
        nothing_logged_fetched flat_nothing)
qed

theorem fetch_failure_fails_request_witness:
  "\<forall>rt. \<exists>trace.
     handler rt throttled configured january =
       Some (json 429
              (Object [(''error'', JStr ''Failed to retrieve worklogs''),
                       (''message'', JStr ''Too many requests''),
                       (''details'', JObj [(''message'', JStr ''Too many requests'')])]),
             trace) \<and>
     filter upstream_call trace =
       [TempoGet ''2026-01-01'' ''2026-01-31'' 0 50, TempoGet ''2026-01-01'' ''2026-01-31'' 50 50]"
proof
  fix rt
  let ?page = "\<lambda>i::nat. first_page"
  let ?results = "\<lambda>i::nat. [login_worklog, review_worklog]"
  have tok: "\<not> missing (TEMPO_API_TOKEN configured)"
    by (simp add: configured_def)
  have 1: "\<forall>i < Suc 0. tempo_get throttled (param (startDate january)) (param (endDate january))
                (i * limit) limit = Inr (?page i)"
    by (simp add: throttled_def)
  have 2: "\<forall>i < Suc 0. get_prop (?page i) ''results'' = JArr (?results i)"
    by (simp add: first_page_def)
  have 3: "\<forall>i < Suc 0. reports_next (?page i)"
    by (simp add: pages_report)
  have 4: "tempo_get throttled (param (startDate january)) (param (endDate january))
             (Suc 0 * limit) limit =
           Inl (RequestError ''Request failed with status code 429''
                  (Some (429, JObj [(''message'', JStr ''Too many requests'')])))"
    by (simp add: throttled_def limit_def)
  from fetch_failure_fails_request [OF january_valid tok 1 2 3 4, of rt]
  show "\<exists>trace.
     handler rt throttled configured january =
       Some (json 429
              (Object [(''error'', JStr ''Failed to retrieve worklogs''),
                       (''message'', JStr ''Too many requests''),
                       (''details'', JObj [(''message'', JStr ''Too many requests'')])]),
             trace) \<and>
     filter upstream_call trace =
       [TempoGet ''2026-01-01'' ''2026-01-31'' 0 50, TempoGet ''2026-01-01'' ''2026-01-31'' 50 50]"
    by (simp add: js_or_def opt_member_def january_def limit_def)
qed

lemma length_fifty: "length fifty = 50"
  by (simp add: fifty_def)

lemma ceiling_51: "\<lceil>(51::rat) / 50\<rceil> = 2"
  by (rule ceiling_unique) simp_all

lemma window_reads:
  "get_prop (window records offset n marker) ''results'' = JArr (take n (drop offset records))"
  "reports_next (window records offset n marker) = marker"
  by (simp_all add: window_def reports_next_def opt_member_def)

text \<open>
  The count of the specification fails against a service that reports a next page only
  when records remain: fifty records arrive in one call, not in two.
\<close>

theorem fetch_pages_calls_counterexample:
  "fetch_pages idle_runtime (marking_rest fifty) ''2026-01-01'' ''2026-01-31'' 0 [] [] =
     Some (Inr fifty, [TempoGet ''2026-01-01'' ''2026-01-31'' 0 50]) \<and>
   length fifty = 50 \<and>
   int (length (filter is_tempo_get [TempoGet ''2026-01-01'' ''2026-01-31'' 0 50])) \<noteq>
     \<lceil>(rat_of_nat (length fifty) + 1) / 50\<rceil>"
proof -
  have "read_page idle_runtime (Inr (window fifty 0 50 False)) = Inr (fifty, JUndefined)"
    by (simp add: read_page_def window_def js_and_def length_fifty)
  then have "fetch_pages idle_runtime (marking_rest fifty) ''2026-01-01'' ''2026-01-31'' 0 [] [] =
     Some (Inr fifty, [TempoGet ''2026-01-01'' ''2026-01-31'' 0 50])"
    by (subst fetch_pages.simps) (simp add: marking_rest_def limit_def length_fifty)
  moreover have "\<lceil>(rat_of_nat (length fifty) + 1) / 50\<rceil> = 2"
    by (simp add: length_fifty ceiling_51)
  ultimately show ?thesis
    by (simp add: length_fifty)
qed

theorem fetch_pages_calls_witness:
  "\<forall>rt. (\<exists>all trace.
           fetch_pages rt (marking_full []) ''2026-01-01'' ''2026-01-31'' 0 [] [] =
             Some (Inr all, trace) \<and>
           length (filter is_tempo_get trace) = 1) \<and>
        (\<exists>trace.
           fetch_pages rt (marking_full fifty) ''2026-01-01'' ''2026-01-31'' 0 [] [] =
             Some (Inr fifty, trace) \<and>
           int (length (filter is_tempo_get trace)) = 2)"
proof
  fix rt
  let ?s = "''2026-01-01''" and ?e = "''2026-01-31''"
  let ?page = "\<lambda>i::nat. window [] (i * limit) limit False"
  have a: "(\<forall>i \<le> 0. tempo_get (marking_full []) ?s ?e (i * limit) limit = Inr (?page i) \<and>
              get_prop (?page i) ''results'' = JArr ((\<lambda>i. []) i)) \<and>
           (\<forall>i < (0::nat). reports_next (?page i)) \<and> \<not> reports_next (?page 0)"
    by (simp add: marking_full_def window_reads limit_def)
  let ?data = "\<lambda>offset. window fifty offset limit (length (take limit (drop offset fifty)) = limit)"
  have b: "\<forall>offset. tempo_get (marking_full fifty) ?s ?e offset limit = Inr (?data offset) \<and>
        get_prop (?data offset) ''results'' = JArr (take limit (drop offset fifty)) \<and>
        reports_next (?data offset) = (length (take limit (drop offset fifty)) = limit)"
    by (simp add: marking_full_def window_reads)
  have c: "\<lceil>(rat_of_nat (length fifty) + 1) / 50\<rceil> = 2"
    by (simp add: length_fifty ceiling_51)
  from fetch_pages_calls [of 0 "marking_full []" ?s ?e ?page "\<lambda>i. []" rt] a
  have first: "\<exists>all trace.
           fetch_pages rt (marking_full []) ?s ?e 0 [] [] = Some (Inr all, trace) \<and>
           length (filter is_tempo_get trace) = 1"
    by simp
  from fetch_pages_calls [of _ "marking_full fifty" ?s ?e _ _ rt ?data fifty] b c
  have second: "\<exists>trace.
           fetch_pages rt (marking_full fifty) ?s ?e 0 [] [] = Some (Inr fifty, trace) \<and>
           int (length (filter is_tempo_get trace)) = 2"
    by simp
  from first second show "(\<exists>all trace.
           fetch_pages rt (marking_full []) ''2026-01-01'' ''2026-01-31'' 0 [] [] =
             Some (Inr all, trace) \<and>
           length (filter is_tempo_get trace) = 1) \<and>
        (\<exists>trace.
           fetch_pages rt (marking_full fifty) ''2026-01-01'' ''2026-01-31'' 0 [] [] =
             Some (Inr fifty, trace) \<and>
           int (length (filter is_tempo_get trace)) = 2)"
    by blast
qed

lemma lookup_toString: "lookup empty_issue_map ''toString'' = Native"
  by (simp add: lookup_def empty_issue_map_def object_prototype_names_def)

text \<open>
  Claim C5, where the code departs from it. The worklog's identifier \<^verbatim>\<open>toString\<close> matches
  no issue of the answer, which is empty, yet \<^verbatim>\<open>issueMap["toString"]\<close> is the function
  every object inherits: the test passes, and the worklog's key \<^verbatim>\<open>OLD-1\<close> and its summary
  are overwritten with \<^verbatim>\<open>undefined\<close>.
\<close>

theorem enrich_inherited_member:
  "enrichWithIssueKeys idle_runtime finds_nothing [inherited_worklog] [] =
     (Inr [JObj [(''tempoWorklogId'', JNum 301),
                 (''issue'', JObj [(''id'', JStr ''toString''), (''key'', JUndefined),
                                   (''summary'', JUndefined)]),
                 (''timeSpentSeconds'', JNum 60)]],
      [JiraPost ''id in (toString)'' 1]) \<and>
   build_issue_map idle_runtime (JObj [(''issues'', JArr [])]) = Inr empty_issue_map \<and>
   lookup empty_issue_map ''toString'' = Native"
proof -
  have ids: "issueIds [inherited_worklog] = Inr [JStr ''toString'']"
    by (simp add: issueIds_def issue_id_def get_member_def opt_member_def new_Set_def set_add_def
        inherited_worklog_def)
  have m: "build_issue_map idle_runtime (JObj [(''issues'', JArr [])]) = Inr empty_issue_map"
    by (simp add: build_issue_map_def get_member_def)
  have w: "enrich_worklog idle_runtime empty_issue_map inherited_worklog =
     Inr (JObj [(''tempoWorklogId'', JNum 301),
                 (''issue'', JObj [(''id'', JStr ''toString''), (''key'', JUndefined),
                                   (''summary'', JUndefined)]),
                 (''timeSpentSeconds'', JNum 60)])"
    by (simp add: enrich_worklog_def issue_id_def get_member_def opt_member_def
        inherited_worklog_def lookup_toString assign_issue_def)
  have t: "try_enrich idle_runtime finds_nothing (jql_text [''toString'']) (length [JStr ''toString''])
      [inherited_worklog] =
     (None, [JObj [(''tempoWorklogId'', JNum 301),
                 (''issue'', JObj [(''id'', JStr ''toString''), (''key'', JUndefined),
                                   (''summary'', JUndefined)]),
                 (''timeSpentSeconds'', JNum 60)]])"
    by (simp add: try_enrich_def finds_nothing_def m w)
  have ne: "[JStr ''toString''] \<noteq> []" by simp
  have c: "collect (map (to_string idle_runtime) [JStr ''toString'']) = Inr [''toString'']"
    by simp
  from enrichWithIssueKeys_called [OF ids ne c t, of "[]"] m lookup_toString show ?thesis
    by (simp add: jql_text_def)
qed

end
